theory Spec2Isabelle
  imports Complex_Main "HOL-Library.Sublist"
begin

section \<open>Text primitives\<close>

text \<open>
  Python strings are modelled as HOL strings: a character stands for the code point of
  the same number, so the model covers text whose code points are below 256 (ASCII and the
  Latin-1 supplement). On these the character classes and the case mapping below are the
  ones of Python's \<^verbatim>\<open>str\<close> and of \<^verbatim>\<open>re\<close> on \<^verbatim>\<open>str\<close> patterns; text with other code
  points has no counterpart in the model.
\<close>

definition LF :: char where
  "LF = CHR 0x0A"

definition CR :: char where
  "CR = CHR 0x0D"

text \<open>
  \<^verbatim>\<open>str.isspace\<close> and the regex class \<^verbatim>\<open>\s\<close>: tab to carriage return, the four
  separators U+001C to U+001F, the space, the next-line control U+0085 and the no-break
  space U+00A0.
\<close>

definition is_space :: "char \<Rightarrow> bool" where
  "is_space c = (c \<in> set [CHR 0x09, CHR 0x0A, CHR 0x0B, CHR 0x0C, CHR 0x0D,
                            CHR 0x1C, CHR 0x1D, CHR 0x1E, CHR 0x1F, CHR 0x20,
                            CHR 0x85, CHR 0xA0])"

text \<open>The regex class \<^verbatim>\<open>\d\<close>; below 256 the decimal digits are the ASCII ones.\<close>

definition is_digit :: "char \<Rightarrow> bool" where
  "is_digit c = (c \<in> set ''0123456789'')"

definition is_upper :: "char \<Rightarrow> bool" where
  "is_upper c = (c \<in> set ''ABCDEFGHIJKLMNOPQRSTUVWXYZ'')"

definition is_lower :: "char \<Rightarrow> bool" where
  "is_lower c = (c \<in> set ''abcdefghijklmnopqrstuvwxyz'')"

text \<open>
  The alphanumeric characters of the Latin-1 supplement (\<^verbatim>\<open>str.isalnum\<close>): the ordinal
  indicators, the micro sign, the superscript digits, the fractions and the letters
  (the range U+00C0 to U+00FF without the multiplication and division signs).
\<close>

definition latin1_alnum :: "char \<Rightarrow> bool" where
  "latin1_alnum c =
     (let n = (of_char c :: nat)
      in n \<in> set [0xAA, 0xB2, 0xB3, 0xB5, 0xB9, 0xBA, 0xBC, 0xBD, 0xBE]
         \<or> (0xC0 \<le> n \<and> n \<le> 0xFF \<and> n \<noteq> 0xD7 \<and> n \<noteq> 0xF7))"

text \<open>The regex class \<^verbatim>\<open>\w\<close>: alphanumeric or the underscore.\<close>

definition is_word :: "char \<Rightarrow> bool" where
  "is_word c = (is_upper c \<or> is_lower c \<or> is_digit c \<or> c = CHR ''_'' \<or> latin1_alnum c)"

text \<open>The regex \<^verbatim>\<open>.\<close> without DOTALL: any character but the newline.\<close>

definition dot :: "char \<Rightarrow> bool" where
  "dot c = (c \<noteq> LF)"

text \<open>
  The lower-case form of a character: of the ASCII capitals, and of the capitals
  U+00C0 to U+00DE of the Latin-1 supplement (all but the multiplication sign).
\<close>

definition lower_char :: "char \<Rightarrow> char" where
  "lower_char c =
     (case map_of (zip ''ABCDEFGHIJKLMNOPQRSTUVWXYZ'' ''abcdefghijklmnopqrstuvwxyz'') c of
        Some d \<Rightarrow> d
      | None \<Rightarrow>
          (let n = (of_char c :: nat)
           in if 0xC0 \<le> n \<and> n \<le> 0xDE \<and> n \<noteq> 0xD7 then char_of (n + 0x20) else c))"

text \<open>\<^verbatim>\<open>str.lower()\<close>\<close>

definition lower :: "string \<Rightarrow> string" where
  "lower s = map lower_char s"

text \<open>\<^verbatim>\<open>sub in s\<close>\<close>

fun contains :: "string \<Rightarrow> string \<Rightarrow> bool" where
  "contains sub [] = (sub = [])"
| "contains sub (c # cs) = (prefix sub (c # cs) \<or> contains sub cs)"

text \<open>\<^verbatim>\<open>s.rstrip("\r\n")\<close>\<close>

definition rstrip_crlf :: "string \<Rightarrow> string" where
  "rstrip_crlf s = rev (dropWhile (\<lambda>c. c = CR \<or> c = LF) (rev s))"

text \<open>\<^verbatim>\<open>not s.strip()\<close>: the string is empty or all whitespace.\<close>

definition blank :: "string \<Rightarrow> bool" where
  "blank s = list_all is_space s"

text \<open>\<^verbatim>\<open>s.replace(",", ".")\<close>\<close>

definition replace_comma :: "string \<Rightarrow> string" where
  "replace_comma s = map (\<lambda>c. if c = CHR '','' then CHR ''.'' else c) s"

section \<open>Backtracking regular-expression matching\<close>

text \<open>
  Python's \<^verbatim>\<open>re\<close> is a backtracking matcher: the match it reports is the first one in
  the order in which it tries the alternatives (a greedy repetition tries the longest
  repetition first, a lazy one the shortest). Each piece of a pattern is modelled as a
  function from the remaining input to the list of its possible matches in that order;
  a pattern is the composition of its pieces and its match is the first element.
\<close>

text \<open>A repetition \<^verbatim>\<open>X{lo,hi}\<close> of a character class, greedy: the matched text and the rest.\<close>

definition greedy :: "(char \<Rightarrow> bool) \<Rightarrow> nat \<Rightarrow> nat option \<Rightarrow> string \<Rightarrow> (string \<times> string) list" where
  "greedy P lo hi s =
     (let n = length (takeWhile P s);
          m = (case hi of None \<Rightarrow> n | Some h \<Rightarrow> min h n)
      in map (\<lambda>k. (take k s, drop k s)) (rev [lo..<Suc m]))"

text \<open>The same repetition, lazy (\<^verbatim>\<open>X{lo,hi}?\<close>).\<close>

definition lazy :: "(char \<Rightarrow> bool) \<Rightarrow> nat \<Rightarrow> nat option \<Rightarrow> string \<Rightarrow> (string \<times> string) list" where
  "lazy P lo hi s =
     (let n = length (takeWhile P s);
          m = (case hi of None \<Rightarrow> n | Some h \<Rightarrow> min h n)
      in map (\<lambda>k. (take k s, drop k s)) [lo..<Suc m])"

text \<open>\<^verbatim>\<open>\s*\<close> and \<^verbatim>\<open>\s+\<close>, keeping only the rest of the input.\<close>

definition ws0 :: "string \<Rightarrow> string list" where
  "ws0 s = map snd (greedy is_space 0 None s)"

definition ws1 :: "string \<Rightarrow> string list" where
  "ws1 s = map snd (greedy is_space 1 None s)"

text \<open>A literal, case-sensitive and case-insensitive.\<close>

definition lit :: "string \<Rightarrow> string \<Rightarrow> string list" where
  "lit w s = (if prefix w s then [drop (length w) s] else [])"

definition lit_ci :: "string \<Rightarrow> string \<Rightarrow> string list" where
  "lit_ci w s =
     (if length w \<le> length s \<and> lower (take (length w) s) = lower w
      then [drop (length w) s] else [])"

text \<open>An alternation of literals, captured: \<^verbatim>\<open>(?P<level>DEBUG|INFO|...)\<close>.\<close>

definition alts :: "string list \<Rightarrow> string \<Rightarrow> (string \<times> string) list" where
  "alts ws s = concat (map (\<lambda>w. map (\<lambda>r. (w, r)) (lit w s)) ws)"

text \<open>\<^verbatim>\<open>$\<close> without MULTILINE: the end of the input, or just before a final newline.\<close>

definition at_end :: "string \<Rightarrow> bool" where
  "at_end s = (s = [] \<or> s = [LF])"

definition first :: "'a list \<Rightarrow> 'a option" where
  "first xs = (case xs of [] \<Rightarrow> None | x # _ \<Rightarrow> Some x)"

section \<open>Log classifier (custom\_logger.py)\<close>

definition LEVELS :: "string list" where
  "LEVELS = [''DEBUG'', ''INFO'', ''WARNING'', ''ERROR'', ''CRITICAL'']"

text \<open>
  \<^verbatim>\<open>RE_PIPE.match(line)\<close> for
  \<^verbatim>\<open>^(?P<ts>.+?)\s*\|\s*(?P<level>DEBUG|INFO|WARNING|ERROR|CRITICAL)\s*\|\s*(?P<logger>[^|]+)\s*\|\s*(?P<msg>.*)$\<close>:
  the groups ts, level, logger, msg of the match.
\<close>

definition RE_PIPE :: "string \<Rightarrow> (string \<times> string \<times> string \<times> string) option" where
  "RE_PIPE line = first
     [(ts, lvl, lg, m).
        (ts, r1) \<leftarrow> lazy dot 1 None line,
        r2 \<leftarrow> ws0 r1, r3 \<leftarrow> lit ''|'' r2, r4 \<leftarrow> ws0 r3,
        (lvl, r5) \<leftarrow> alts LEVELS r4,
        r6 \<leftarrow> ws0 r5, r7 \<leftarrow> lit ''|'' r6, r8 \<leftarrow> ws0 r7,
        (lg, r9) \<leftarrow> greedy (\<lambda>c. c \<noteq> CHR ''|'') 1 None r8,
        r10 \<leftarrow> ws0 r9, r11 \<leftarrow> lit ''|'' r10, r12 \<leftarrow> ws0 r11,
        (m, r13) \<leftarrow> greedy dot 0 None r12,
        at_end r13]"

text \<open>
  \<^verbatim>\<open>RE_DASH.match(line)\<close> for
  \<^verbatim>\<open>^(?P<ts>.+?)\s*-\s*(?P<level>DEBUG|INFO|WARNING|ERROR|CRITICAL)\s*-\s*(?P<msg>.*)$\<close>:
  the groups ts, level, msg.
\<close>

definition RE_DASH :: "string \<Rightarrow> (string \<times> string \<times> string) option" where
  "RE_DASH line = first
     [(ts, lvl, m).
        (ts, r1) \<leftarrow> lazy dot 1 None line,
        r2 \<leftarrow> ws0 r1, r3 \<leftarrow> lit ''-'' r2, r4 \<leftarrow> ws0 r3,
        (lvl, r5) \<leftarrow> alts LEVELS r4,
        r6 \<leftarrow> ws0 r5, r7 \<leftarrow> lit ''-'' r6, r8 \<leftarrow> ws0 r7,
        (m, r9) \<leftarrow> greedy dot 0 None r8,
        at_end r9]"

text \<open>
  The \<^verbatim>\<open>ts\<close> field of a LogEntry is a datetime or a string. \<open>Datetime s\<close> is the datetime
  that \<^verbatim>\<open>datetime.fromisoformat\<close> reads from the text \<open>s\<close>, \<open>RawStamp s\<close> the text kept when
  it raises, \<open>FileHint t\<close> the ISO text of a file's modification time \<open>t\<close>, and \<open>ReadClock\<close>
  the time of the call (\<^verbatim>\<open>datetime.now()\<close>).
\<close>

datatype stamp = Datetime string | RawStamp string | FileHint nat | ReadClock

record LogEntry =
  ts :: stamp
  level :: string
  logger :: string
  msg :: string
  src_file :: "string option"

record LogsByLevel =
  info :: "LogEntry list"
  warning :: "LogEntry list"
  error :: "LogEntry list"
  note' :: "string option"

text \<open>
  \<^verbatim>\<open>_parse_structured\<close>. The parameter \<open>iso_ok\<close> says which texts \<^verbatim>\<open>datetime.fromisoformat\<close>
  accepts (a function of the Python library).
\<close>

definition parse_ts :: "(string \<Rightarrow> bool) \<Rightarrow> string \<Rightarrow> stamp" where
  "parse_ts iso_ok ts_str =
     (if iso_ok (replace_comma ts_str) then Datetime (replace_comma ts_str) else RawStamp ts_str)"

definition parse_structured :: "(string \<Rightarrow> bool) \<Rightarrow> string \<Rightarrow> LogEntry option" where
  "parse_structured iso_ok line =
     (let matched =
        (case RE_PIPE line of
           Some (t, lvl, lg, m) \<Rightarrow> Some (t, lvl, lg, m)
         | None \<Rightarrow>
            (case RE_DASH line of
               Some (t, lvl, m) \<Rightarrow> Some (t, lvl, [], m)
             | None \<Rightarrow> None))
      in case matched of
           None \<Rightarrow> None
         | Some (ts_str, lvl, lg, m) \<Rightarrow>
             Some \<lparr>ts = parse_ts iso_ok ts_str, level = lvl, logger = lg, msg = m,
                   src_file = None\<rparr>)"

text \<open>
  The classifier appends LogEntry objects to the three bucket lists and keeps a reference
  \<^verbatim>\<open>last_entry\<close> to the latest one, through which it later extends that entry's message
  in place. The objects live in \<open>heap\<close>; buckets and \<open>last_entry\<close> hold their addresses
  (positions in \<open>heap\<close>).
\<close>

record cstate =
  heap :: "LogEntry list"
  info_ix :: "nat list"
  warning_ix :: "nat list"
  error_ix :: "nat list"
  last_entry :: "nat option"

datatype bucket = INFO | WARNING | ERROR

text \<open>\<^verbatim>\<open>output_logslevel_list[b].append(entry)\<close> of a new object \<open>entry\<close>; returns its address.\<close>

definition append_entry :: "bucket \<Rightarrow> LogEntry \<Rightarrow> cstate \<Rightarrow> nat \<times> cstate" where
  "append_entry b e st =
     (let a = length (heap st); st' = st\<lparr>heap := heap st @ [e]\<rparr>
      in (a, case b of
               INFO \<Rightarrow> st'\<lparr>info_ix := info_ix st @ [a]\<rparr>
             | WARNING \<Rightarrow> st'\<lparr>warning_ix := warning_ix st @ [a]\<rparr>
             | ERROR \<Rightarrow> st'\<lparr>error_ix := error_ix st @ [a]\<rparr>))"

definition append_and_remember :: "bucket \<Rightarrow> LogEntry \<Rightarrow> cstate \<Rightarrow> cstate" where
  "append_and_remember b e st =
     (case append_entry b e st of (a, st') \<Rightarrow> st'\<lparr>last_entry := Some a\<rparr>)"

text \<open>
  The body of the loop \<^verbatim>\<open>for raw in f\<close> of \<^verbatim>\<open>collect_logs_grouped_all\<close>; \<open>fname\<close> is
  \<^verbatim>\<open>path.name\<close> and \<open>mtime\<close> the file's modification time.
\<close>

definition classify_line :: "(string \<Rightarrow> bool) \<Rightarrow> string \<Rightarrow> nat \<Rightarrow> cstate \<Rightarrow> string \<Rightarrow> cstate" where
  "classify_line iso_ok fname mtime st raw =
     (case parse_structured iso_ok raw of
        Some parsed \<Rightarrow>
          (let entry = parsed\<lparr>src_file := Some fname\<rparr>
           in if level parsed \<in> set [''ERROR'', ''CRITICAL''] then append_and_remember ERROR entry st
              else if level parsed = ''WARNING'' then append_and_remember WARNING entry st
              else append_and_remember INFO entry st)
      | None \<Rightarrow>
          (let line = rstrip_crlf raw
           in if blank line then st
              else if contains ''error'' (lower line) then
                append_and_remember ERROR
                  \<lparr>ts = FileHint mtime, level = ''ERROR'', logger = ''raw'', msg = line,
                   src_file = Some fname\<rparr> st
              else if contains ''warning'' (lower line) then
                append_and_remember WARNING
                  \<lparr>ts = FileHint mtime, level = ''WARNING'', logger = ''raw'', msg = line,
                   src_file = Some fname\<rparr> st
              else
                (case last_entry st of
                   Some a \<Rightarrow>
                     st\<lparr>heap := (heap st)[a := (heap st ! a)\<lparr>msg := msg (heap st ! a) @ [LF] @ line\<rparr>]\<rparr>
                 | None \<Rightarrow>
                     append_and_remember INFO
                       \<lparr>ts = FileHint mtime, level = ''INFO'', logger = ''raw'', msg = line,
                        src_file = Some fname\<rparr> st)))"

text \<open>
  A candidate log file as the classifier sees it: its name, what \<^verbatim>\<open>stat()\<close> gives (the
  modification time, or the text of the error it raises), the lines that iterating over
  the open file yields (each with its line terminator), and the error, if any, that
  opening or reading raises after these lines.
\<close>

record log_file =
  name :: string
  st_mtime :: "string + nat"
  lines :: "string list"
  read_error :: "string option"

text \<open>One iteration of \<^verbatim>\<open>for path in candidates[:max_files]\<close>.\<close>

definition classify_file :: "(string \<Rightarrow> bool) \<Rightarrow> cstate \<Rightarrow> log_file \<Rightarrow> cstate" where
  "classify_file iso_ok st f =
     (let mtime = (case st_mtime f of Inr t \<Rightarrow> t | Inl _ \<Rightarrow> 0);
          st1 = foldl (classify_line iso_ok (name f) mtime) (st\<lparr>last_entry := None\<rparr>) (lines f)
      in case read_error f of
           None \<Rightarrow> st1
         | Some e \<Rightarrow>
             snd (append_entry ERROR
                    \<lparr>ts = ReadClock, level = ''ERROR'', logger = ''log.reader'',
                     msg = ''Failed reading '' @ name f @ '': '' @ e, src_file = Some (name f)\<rparr> st1))"

definition view :: "cstate \<Rightarrow> LogsByLevel" where
  "view st = \<lparr>info = map (nth (heap st)) (info_ix st),
              warning = map (nth (heap st)) (warning_ix st),
              error = map (nth (heap st)) (error_ix st),
              note' = None\<rparr>"

definition init_cstate :: cstate where
  "init_cstate = \<lparr>heap = [], info_ix = [], warning_ix = [], error_ix = [], last_entry = None\<rparr>"

text \<open>The first \<^verbatim>\<open>stat()\<close> error among the files, as sorting by modification time raises it.\<close>

fun stat_all :: "log_file list \<Rightarrow> string option" where
  "stat_all [] = None"
| "stat_all (f # fs) = (case st_mtime f of Inl e \<Rightarrow> Some e | Inr _ \<Rightarrow> stat_all fs)"

definition mtime_key :: "log_file \<Rightarrow> nat" where
  "mtime_key f = (case st_mtime f of Inr t \<Rightarrow> t | Inl _ \<Rightarrow> 0)"

text \<open>
  \<^verbatim>\<open>collect_logs_grouped_all(output_dir, max_files)\<close>. The directory \<^verbatim>\<open><output_dir>/logs\<close> is
  \<open>None\<close> when \<^verbatim>\<open>is_dir()\<close> is false, and otherwise the files that \<^verbatim>\<open>glob("*.txt")\<close> and
  \<^verbatim>\<open>glob("*.log")\<close> list, in that order. The result is \<open>Inl\<close> the error text when the
  function raises.
\<close>

definition collect_logs_grouped_all ::
  "(string \<Rightarrow> bool) \<Rightarrow> (log_file list \<times> log_file list) option \<Rightarrow> nat \<Rightarrow> string + LogsByLevel" where
  "collect_logs_grouped_all iso_ok logs_dir max_files =
     (case logs_dir of
        None \<Rightarrow> Inr \<lparr>info = [], warning = [], error = [], note' = None\<rparr>
      | Some (txts, logs) \<Rightarrow>
          (let candidates = txts @ logs
           in if candidates = [] then
                Inr \<lparr>info = [], warning = [], error = [], note' = Some ''No log files found''\<rparr>
              else
                (case stat_all candidates of
                   Some e \<Rightarrow> Inl e
                 | None \<Rightarrow>
                     Inr (view (foldl (classify_file iso_ok) init_cstate
                                  (take max_files (sort_key mtime_key candidates)))))))"

section \<open>Inputs used in the claims about the log classifier\<close>


text \<open>The entry that the classifier builds for \<open>structured_line\<close> in the file \<open>fname\<close>, with message \<open>m\<close>.\<close>

definition hello_entry :: "(string \<Rightarrow> bool) \<Rightarrow> string \<Rightarrow> string \<Rightarrow> LogEntry" where
  "hello_entry iso_ok fname m =
     \<lparr>ts = parse_ts iso_ok ''2025-01-01 00:00:00,000'', level = ''INFO'', logger = ''x '',
      msg = m, src_file = Some fname\<rparr>"

text \<open>The entry synthesised for an unstructured line that mentions an error.\<close>

definition raw_error_entry :: "string \<Rightarrow> nat \<Rightarrow> string \<Rightarrow> LogEntry" where
  "raw_error_entry fname mtime line =
     \<lparr>ts = FileHint mtime, level = ''ERROR'', logger = ''raw'', msg = line, src_file = Some fname\<rparr>"


definition traceback_line :: string where
  "traceback_line = ''Traceback: fatal ERROR after warning'' @ [LF]"

text \<open>A classifier state in the middle of a file, with one entry that a continuation could extend.\<close>

definition busy_cstate :: cstate where
  "busy_cstate = \<lparr>heap = [hello_entry (\<lambda>_. True) ''a.txt'' ''hello''], info_ix = [0],
                   warning_ix = [], error_ix = [], last_entry = Some 0\<rparr>"

text \<open>
  What the lines that follow an entry add to its message: each bare line (not structured,
  not blank, mentioning neither an error nor a warning) is joined after a newline, blank
  lines are skipped, and the first line that makes an entry of its own ends the message.
\<close>

fun continuation :: "(string \<Rightarrow> bool) \<Rightarrow> string list \<Rightarrow> string" where
  "continuation iso_ok [] = []"
| "continuation iso_ok (raw # rest) =
     (case parse_structured iso_ok raw of
        Some parsed \<Rightarrow> []
      | None \<Rightarrow>
          (let line = rstrip_crlf raw
           in if blank line then continuation iso_ok rest
              else if contains ''error'' (lower line) \<or> contains ''warning'' (lower line) then []
              else [LF] @ line @ continuation iso_ok rest))"

text \<open>The object at address \<open>a\<close> is \<open>v\<close> and is in the error bucket.\<close>

definition kept :: "nat \<Rightarrow> LogEntry \<Rightarrow> cstate \<Rightarrow> bool" where
  "kept a v st = (a < length (heap st) \<and> heap st ! a = v \<and> a \<in> set (error_ix st))"

text \<open>The files that the classifier reads, in its order.\<close>

definition files_read :: "log_file list \<times> log_file list \<Rightarrow> nat \<Rightarrow> log_file list" where
  "files_read d max_files = take max_files (sort_key mtime_key (fst d @ snd d))"

definition traceback_file :: log_file where
  "traceback_file = \<lparr>name = ''log_20250101_000000.txt'', st_mtime = Inr 7,
                      lines = [traceback_line, ''  File x, line 3'' @ [LF]], read_error = None\<rparr>"

section \<open>Fail-fast watcher (fail\_fast\_logger.py)\<close>

text \<open>\<^verbatim>\<open>\d{n}\<close>, keeping the rest of the input.\<close>

definition digits :: "nat \<Rightarrow> string \<Rightarrow> string list" where
  "digits n s = map snd (greedy is_digit n (Some n) s)"

text \<open>
  The timestamp group of \<^verbatim>\<open>RE_ARCGIS_ERR\<close>,
  \<^verbatim>\<open>\d{4}-\d{2}-\d{2}[ T]\d{2}:\d{2}:\d{2}(?:[.,]\d{3,6})?\<close> under IGNORECASE.
\<close>

definition arcgis_ts :: "string \<Rightarrow> string list" where
  "arcgis_ts s =
     [r9. r1 \<leftarrow> digits 4 s, r2 \<leftarrow> lit ''-'' r1, r3 \<leftarrow> digits 2 r2, r4 \<leftarrow> lit ''-'' r3,
          r5 \<leftarrow> digits 2 r4,
          (_, r6) \<leftarrow> greedy (\<lambda>c. c \<in> set '' Tt'') 1 (Some 1) r5,
          r7 \<leftarrow> digits 2 r6, r8 \<leftarrow> lit '':'' r7, r8a \<leftarrow> digits 2 r8, r8b \<leftarrow> lit '':'' r8a,
          r8c \<leftarrow> digits 2 r8b,
          r9 \<leftarrow> [r. (_, q) \<leftarrow> greedy (\<lambda>c. c \<in> set ''.,'') 1 (Some 1) r8c,
                      (_, r) \<leftarrow> greedy is_digit 3 (Some 6) q] @ [r8c]]"

text \<open>
  \<^verbatim>\<open>RE_ARCGIS_ERR.search(s)\<close> for the verbose, case-insensitive pattern
  \<^verbatim>\<open>^\s*(?:(?P<ts>...)\s*)?ERROR\s+(?P<code>\d{3,6})\s*:\s*(?P<msg>.+?)\s*$\<close>. Without
  MULTILINE the anchor \<^verbatim>\<open>^\<close> holds at the start of the text only, so the search succeeds
  exactly when the pattern matches there.
\<close>

definition RE_ARCGIS_ERR :: "string \<Rightarrow> bool" where
  "RE_ARCGIS_ERR s =
     ([r10. r1 \<leftarrow> ws0 s,
            r2 \<leftarrow> [r. q \<leftarrow> arcgis_ts r1, r \<leftarrow> ws0 q] @ [r1],
            r3 \<leftarrow> lit_ci ''ERROR'' r2, r4 \<leftarrow> ws1 r3,
            (_, r5) \<leftarrow> greedy is_digit 3 (Some 6) r4,
            r6 \<leftarrow> ws0 r5, r7 \<leftarrow> lit '':'' r6, r8 \<leftarrow> ws0 r7,
            (_, r9) \<leftarrow> lazy dot 1 None r8,
            r10 \<leftarrow> ws0 r9, at_end r10] \<noteq> [])"

text \<open>
  \<^verbatim>\<open>ERROR_WORD.search(s)\<close> for \<^verbatim>\<open>\berror\b\<close> under IGNORECASE. \<open>error_word_here\<close>: the word
  starts at the head of the text and ends at a word boundary; \<open>ERROR_WORD_scan pw\<close> tries
  every position, \<open>pw\<close> telling whether the character before is a word character.
\<close>

definition error_word_here :: "string \<Rightarrow> bool" where
  "error_word_here s =
     (case lit_ci ''error'' s of
        [] \<Rightarrow> False
      | r # _ \<Rightarrow> (case r of [] \<Rightarrow> True | c # _ \<Rightarrow> \<not> is_word c))"

fun ERROR_WORD_scan :: "bool \<Rightarrow> string \<Rightarrow> bool" where
  "ERROR_WORD_scan pw [] = False"
| "ERROR_WORD_scan pw (c # cs) =
     ((\<not> pw \<and> error_word_here (c # cs)) \<or> ERROR_WORD_scan (is_word c) cs)"

definition ERROR_WORD :: "string \<Rightarrow> bool" where
  "ERROR_WORD s = ERROR_WORD_scan False s"

text \<open>The levels of the \<^verbatim>\<open>logging\<close> module.\<close>

definition logging_INFO :: nat where
  "logging_INFO = 20"

definition logging_WARNING :: nat where
  "logging_WARNING = 30"

definition logging_ERROR :: nat where
  "logging_ERROR = 40"

text \<open>A log record: its level and \<^verbatim>\<open>record.getMessage()\<close>.\<close>

record log_record =
  levelno :: nat
  message :: string

record FailFastLogWatcher =
  log_file_path :: "string option"
  poll_file :: bool
  error_msg :: "string option"

text \<open>\<^verbatim>\<open>FailFastLogWatcher(log_file, poll_file)\<close>\<close>

definition new_watcher :: "string option \<Rightarrow> bool \<Rightarrow> FailFastLogWatcher" where
  "new_watcher lf poll =
     \<lparr>log_file_path = lf, poll_file = (poll \<and> lf \<noteq> None), error_msg = None\<rparr>"

text \<open>The truth value of a Python \<^verbatim>\<open>str | None\<close>: None and the empty string are false.\<close>

definition truthy :: "string option \<Rightarrow> bool" where
  "truthy x = (case x of None \<Rightarrow> False | Some s \<Rightarrow> s \<noteq> [])"

text \<open>\<^verbatim>\<open>x or y\<close> for \<^verbatim>\<open>x: str | None\<close> and a string \<^verbatim>\<open>y\<close>\<close>

definition py_or :: "string option \<Rightarrow> string \<Rightarrow> string option" where
  "py_or x y = (if truthy x then x else Some y)"

definition emit :: "FailFastLogWatcher \<Rightarrow> log_record \<Rightarrow> FailFastLogWatcher" where
  "emit w r =
     (let m = message r
      in if levelno r \<ge> logging_ERROR \<or> RE_ARCGIS_ERR m \<or> ERROR_WORD m
         then w\<lparr>error_msg := py_or (error_msg w) m\<rparr>
         else w)"

text \<open>
  \<^verbatim>\<open>scan_file_once\<close>; \<open>rd\<close> is what \<^verbatim>\<open>read_text\<close> gives at that moment: the text of
  the file, or \<open>Inl\<close> the error it raises.
\<close>

definition scan_file_once :: "FailFastLogWatcher \<Rightarrow> string + string \<Rightarrow> FailFastLogWatcher" where
  "scan_file_once w rd =
     (if \<not> poll_file w \<or> log_file_path w = None then w
      else case rd of
             Inl e \<Rightarrow> w
           | Inr content \<Rightarrow>
               if RE_ARCGIS_ERR content \<or> ERROR_WORD content
               then w\<lparr>error_msg := py_or (error_msg w) ''Error detected in log file''\<rparr>
               else w)"

text \<open>
  The watcher is latched when it holds a message that counts as true, which is how
  \<^verbatim>\<open>emit\<close> and \<^verbatim>\<open>scan_file_once\<close> (\<^verbatim>\<open>self._error_msg or ...\<close>) and the orchestrator
  (\<^verbatim>\<open>if watcher.error_message\<close>) test it.
\<close>

definition latched :: "FailFastLogWatcher \<Rightarrow> bool" where
  "latched w = truthy (error_msg w)"

text \<open>What reaches a watcher: a record of its logger, or a call of \<^verbatim>\<open>scan_file_once\<close>.\<close>

datatype watcher_event = Emit log_record | Scan "string + string"

fun watcher_step :: "FailFastLogWatcher \<Rightarrow> watcher_event \<Rightarrow> FailFastLogWatcher" where
  "watcher_step w (Emit r) = emit w r"
| "watcher_step w (Scan rd) = scan_file_once w rd"

definition watcher_run :: "FailFastLogWatcher \<Rightarrow> watcher_event list \<Rightarrow> FailFastLogWatcher" where
  "watcher_run w evs = foldl watcher_step w evs"

text \<open>Whether a record is one that \<^verbatim>\<open>emit\<close> detects.\<close>

definition detects :: "log_record \<Rightarrow> bool" where
  "detects r = (levelno r \<ge> logging_ERROR \<or> RE_ARCGIS_ERR (message r) \<or> ERROR_WORD (message r))"

section \<open>Inputs used in the claims about the watcher\<close>

definition fresh_watcher :: FailFastLogWatcher where
  "fresh_watcher = new_watcher (Some ''output/job-1/logs/log_20250101_000000.txt'') True"

text \<open>Two records at level ERROR, the first with an empty message.\<close>

definition empty_error_record :: log_record where
  "empty_error_record = \<lparr>levelno = logging_ERROR, message = []\<rparr>"

definition boom_record :: log_record where
  "boom_record = \<lparr>levelno = logging_ERROR, message = ''boom''\<rparr>"

section \<open>Status store and cancellation registry (async\_routes.py)\<close>

text \<open>
  An exception: an \<^verbatim>\<open>HTTPException\<close> with its status code and detail, or any other
  \<^verbatim>\<open>Exception\<close> with its text (\<^verbatim>\<open>str(exc)\<close>).
\<close>

datatype exn = HTTPException nat string | Error string

text \<open>A row of the table \<^verbatim>\<open>jobs\<close>; the column \<^verbatim>\<open>error\<close> is the field \<open>job_error\<close>.\<close>

record job_row =
  status :: string
  created_at :: string
  updated_at :: string
  job_error :: "string option"
  output_dir :: "string option"
  result_zip_path :: "string option"

text \<open>What the code does to the outside, in order.\<close>

datatype effect =
    DbUpdate string string
  | AppWarning nat string string string
  | Sleep rat
  | JobLog nat string
  | DbFetch
  | Step1
  | Step2 "string option"
  | ClearLocks
  | ZipDirectory

text \<open>
  The state of the process and of what it shares with its environment:
  \<^item> \<open>rows\<close>: the table \<^verbatim>\<open>jobs\<close> of the SQLite database, by \<^verbatim>\<open>job_id\<close>;
  \<^item> \<open>faults\<close>: for each coming transaction on the database, in order, the text of the
    error that SQLite raises for it (\<open>Some\<close>), or that it goes through (\<open>None\<close>);
    transactions beyond the end of the list go through;
  \<^item> \<open>RUNNING_JOBS\<close>: the registry, from \<^verbatim>\<open>job_id\<close> to the flag of its \<^verbatim>\<open>Event\<close>;
  \<^item> \<open>clock\<close>, \<open>ticks\<close>: what \<^verbatim>\<open>datetime.now().isoformat()\<close> gives at the n-th reading,
    and the number of readings so far;
  \<^item> \<open>trace\<close>: the effects so far.
\<close>

record world =
  rows :: "string \<rightharpoonup> job_row"
  faults :: "string option list"
  RUNNING_JOBS :: "string \<rightharpoonup> bool"
  clock :: "nat \<Rightarrow> string"
  ticks :: nat
  trace :: "effect list"

definition read_clock :: "world \<Rightarrow> string \<times> world" where
  "read_clock w = (clock w (ticks w), w\<lparr>ticks := Suc (ticks w)\<rparr>)"

definition emit_effect :: "effect \<Rightarrow> world \<Rightarrow> world" where
  "emit_effect e w = w\<lparr>trace := trace w @ [e]\<rparr>"

text \<open>
  One transaction on the database (connect, execute, commit): it raises the next fault,
  or applies \<open>f\<close> to the table.
\<close>

definition db_transaction ::
  "((string \<rightharpoonup> job_row) \<Rightarrow> 'a \<times> (string \<rightharpoonup> job_row)) \<Rightarrow> world \<Rightarrow> (string + 'a) \<times> world" where
  "db_transaction f w =
     (case faults w of
        Some e # fs \<Rightarrow> (Inl e, w\<lparr>faults := fs\<rparr>)
      | None # fs \<Rightarrow> (case f (rows w) of (a, rows') \<Rightarrow> (Inr a, w\<lparr>rows := rows', faults := fs\<rparr>))
      | [] \<Rightarrow> (case f (rows w) of (a, rows') \<Rightarrow> (Inr a, w\<lparr>rows := rows'\<rparr>)))"

text \<open>\<^verbatim>\<open>UPDATE jobs SET status = ?, updated_at = ?, error = ? WHERE job_id = ?\<close>\<close>

definition sql_update_status ::
  "string \<Rightarrow> string \<Rightarrow> string \<Rightarrow> string option \<Rightarrow> (string \<rightharpoonup> job_row) \<Rightarrow> unit \<times> (string \<rightharpoonup> job_row)" where
  "sql_update_status job_id st now err tbl =
     ((), case tbl job_id of
            None \<Rightarrow> tbl
          | Some r \<Rightarrow> tbl(job_id \<mapsto> r\<lparr>status := st, updated_at := now, job_error := err\<rparr>))"

text \<open>\<^verbatim>\<open>time.sleep(secs)\<close>, which raises \<^verbatim>\<open>ValueError\<close> for a negative length.\<close>

definition sleep :: "rat \<Rightarrow> world \<Rightarrow> (exn + unit) \<times> world" where
  "sleep secs w =
     (if secs < 0 then (Inl (Error ''sleep length must be non-negative''), w)
      else (Inr (), emit_effect (Sleep secs) w))"

text \<open>
  The loop \<^verbatim>\<open>while True\<close> of \<^verbatim>\<open>update_status_safe\<close>, entered with \<open>attempt\<close> failed attempts
  so far. The warning to the application logger is inside its own \<^verbatim>\<open>try/except\<close>, so
  nothing it raises changes the control flow.
\<close>

function update_loop ::
  "string \<Rightarrow> string \<Rightarrow> string option \<Rightarrow> int \<Rightarrow> rat \<Rightarrow> string \<Rightarrow> nat \<Rightarrow> world \<Rightarrow> (exn + unit) \<times> world" where
  "update_loop job_id st err retries backoff now attempt w =
     (case db_transaction (sql_update_status job_id st now err) (emit_effect (DbUpdate job_id st) w) of
        (Inr _, w1) \<Rightarrow> (Inr (), w1)
      | (Inl e, w1) \<Rightarrow>
          (let attempt' = attempt + 1;
               w2 = emit_effect (AppWarning attempt' job_id st e) w1
           in if int attempt' \<ge> retries then (Inr (), w2)
              else (case sleep (backoff * of_nat attempt') w2 of
                      (Inl x, w3) \<Rightarrow> (Inl x, w3)
                    | (Inr _, w3) \<Rightarrow> update_loop job_id st err retries backoff now attempt' w3)))"
  by pat_completeness auto
termination
  by (relation "measure (\<lambda>(job_id, st, err, retries, backoff, now, attempt, w). nat (retries - int attempt))")
     auto

declare update_loop.simps [simp del]

text \<open>\<^verbatim>\<open>update_status_safe(job_id, status, error, retries, backoff)\<close>\<close>

definition update_status_safe' ::
  "string \<Rightarrow> string \<Rightarrow> string option \<Rightarrow> int \<Rightarrow> rat \<Rightarrow> world \<Rightarrow> (exn + unit) \<times> world" where
  "update_status_safe' job_id st err retries backoff w =
     (case read_clock w of (now, w0) \<Rightarrow> update_loop job_id st err retries backoff now 0 w0)"

text \<open>The call with the default \<^verbatim>\<open>retries=6, backoff=0.25\<close>, as every caller makes it.\<close>

definition update_status_safe :: "string \<Rightarrow> string \<Rightarrow> string option \<Rightarrow> world \<Rightarrow> (exn + unit) \<times> world" where
  "update_status_safe job_id st err w = update_status_safe' job_id st err 6 (1/4) w"

text \<open>
  \<^verbatim>\<open>cancel_job(job_id)\<close>: the response \<^verbatim>\<open>{"job_id", "status", "message"}\<close>, or the exception it
  raises. An error of the database is not caught and leaves the handler as it is.
\<close>

definition sql_select_status :: "string \<Rightarrow> (string \<rightharpoonup> job_row) \<Rightarrow> string option \<times> (string \<rightharpoonup> job_row)" where
  "sql_select_status job_id tbl = (map_option status (tbl job_id), tbl)"

text \<open>
  \<^verbatim>\<open>UPDATE jobs SET status = ?, updated_at = ? WHERE job_id = ? AND status IN ('queued','processing')\<close>
\<close>

definition sql_mark_cancelling ::
  "string \<Rightarrow> string \<Rightarrow> (string \<rightharpoonup> job_row) \<Rightarrow> unit \<times> (string \<rightharpoonup> job_row)" where
  "sql_mark_cancelling job_id now tbl =
     ((), case tbl job_id of
            None \<Rightarrow> tbl
          | Some r \<Rightarrow>
              if status r \<in> set [''queued'', ''processing'']
              then tbl(job_id \<mapsto> r\<lparr>status := ''cancelling'', updated_at := now\<rparr>)
              else tbl)"

text \<open>
  \<^verbatim>\<open>RUNNING_JOBS.get(job_id)\<close>: the token of the job, or \<open>None\<close> when the registry has no
  entry for it; the lookup raises nothing.
\<close>

definition registry_get :: "string \<Rightarrow> world \<Rightarrow> bool option" where
  "registry_get job_id w = RUNNING_JOBS w job_id"

definition cancel_job :: "string \<Rightarrow> world \<Rightarrow> (exn + string \<times> string \<times> string) \<times> world" where
  "cancel_job job_id w =
     (case registry_get job_id w of
        None \<Rightarrow>
          (case db_transaction (sql_select_status job_id) w of
             (Inl e, w1) \<Rightarrow> (Inl (Error e), w1)
           | (Inr None, w1) \<Rightarrow> (Inl (HTTPException 404 ''Job not found''), w1)
           | (Inr (Some s), w1) \<Rightarrow> (Inr (job_id, s, ''Job not running; no cancel needed''), w1))
      | Some evnt \<Rightarrow>
          (case read_clock w of
             (now, w0) \<Rightarrow>
               (case db_transaction (sql_mark_cancelling job_id now) w0 of
                  (Inl e, w1) \<Rightarrow> (Inl (Error e), w1)
                | (Inr _, w1) \<Rightarrow>
                    (Inr (job_id, ''cancelling'', ''Cancellation requested''),
                     w1\<lparr>RUNNING_JOBS := (RUNNING_JOBS w1)(job_id \<mapsto> True)\<rparr>))))"

text \<open>The next transaction on the database raises no error.\<close>

definition store_ready :: "world \<Rightarrow> bool" where
  "store_ready w = (case faults w of Some e # _ \<Rightarrow> False | _ \<Rightarrow> True)"

text \<open>The number of coming transactions that fail before one goes through.\<close>

definition leading_failures :: "string option list \<Rightarrow> nat" where
  "leading_failures fs = length (takeWhile (\<lambda>x. x \<noteq> None) fs)"

definition sleeps :: "effect list \<Rightarrow> rat list" where
  "sleeps es = concat (map (\<lambda>e. case e of Sleep d \<Rightarrow> [d] | _ \<Rightarrow> []) es)"

definition attempts :: "effect list \<Rightarrow> nat" where
  "attempts es = length (filter (\<lambda>e. case e of DbUpdate _ _ \<Rightarrow> True | _ \<Rightarrow> False) es)"

definition warnings :: "effect list \<Rightarrow> nat list" where
  "warnings es = concat (map (\<lambda>e. case e of AppWarning n _ _ _ \<Rightarrow> [n] | _ \<Rightarrow> []) es)"

text \<open>
  Exponential backoff, in the words of the specification: each delay is the one before
  times a constant factor, so that three consecutive delays \<open>a\<close>, \<open>b\<close>, \<open>c\<close> satisfy
  \<open>b * b = a * c\<close>, and the delays grow.
\<close>

fun exponential_backoff :: "rat list \<Rightarrow> bool" where
  "exponential_backoff (a # b # c # ds) = (a < b \<and> b * b = a * c \<and> exponential_backoff (b # c # ds))"
| "exponential_backoff [a, b] = (a < b)"
| "exponential_backoff ds = True"

text \<open>
  The effects of rounds of the loop that fail and are followed by another attempt, after
  \<open>a\<close> failed attempts, for the error texts \<open>es\<close>: the attempt, the warning, the sleep.
\<close>

fun failed_rounds :: "string \<Rightarrow> string \<Rightarrow> rat \<Rightarrow> nat \<Rightarrow> string list \<Rightarrow> effect list" where
  "failed_rounds job_id st backoff a [] = []"
| "failed_rounds job_id st backoff a (x # xs) =
     [DbUpdate job_id st, AppWarning (Suc a) job_id st x, Sleep (backoff * of_nat (Suc a))]
     @ failed_rounds job_id st backoff (Suc a) xs"

text \<open>The effects between two states of the world.\<close>

definition new_effects :: "world \<Rightarrow> world \<Rightarrow> effect list" where
  "new_effects w w' = drop (length (trace w)) (trace w')"

section \<open>Inputs used in the claims about the status store\<close>

definition queued_row :: job_row where
  "queued_row = \<lparr>status = ''queued'', created_at = ''2025-01-01T00:00:00'',
                  updated_at = ''2025-01-01T00:00:00'', job_error = None,
                  output_dir = Some ''output/job-1'', result_zip_path = None\<rparr>"

text \<open>A job that has been submitted: one row, status queued, and a token that is not set.\<close>

definition submitted_world :: world where
  "submitted_world =
     \<lparr>rows = [''job-1'' \<mapsto> queued_row], faults = [],
      RUNNING_JOBS = [''job-1'' \<mapsto> False],
      clock = (\<lambda>n. ''2025-01-01T00:00:01''), ticks = 0, trace = []\<rparr>"

text \<open>The same, with a database that is locked for the next six transactions.\<close>

definition locked_world :: world where
  "locked_world =
     submitted_world\<lparr>faults := [Some ''database is locked'', Some ''database is locked'',
                                 Some ''database is locked'', Some ''database is locked'',
                                 Some ''database is locked'', Some ''database is locked'']\<rparr>"

text \<open>The same, with a database that is locked for the next two transactions.\<close>

definition busy_world :: world where
  "busy_world =
     submitted_world\<lparr>faults := [Some ''database is locked'', Some ''database is locked'', None]\<rparr>"

text \<open>A finished job: its row is there, its token has been removed from the registry.\<close>

definition finished_world :: world where
  "finished_world =
     submitted_world\<lparr>rows := [''job-1'' \<mapsto> queued_row\<lparr>status := ''complete''\<rparr>],
                      RUNNING_JOBS := Map.empty\<rparr>"

text \<open>The same finished job, with a database that is locked for the next transaction.\<close>

definition finished_locked_world :: world where
  "finished_locked_world = finished_world\<lparr>faults := [Some ''database is locked'']\<rparr>"

section \<open>Job orchestrator (run\_survey\_mapper in async\_routes.py)\<close>

text \<open>
  What a step of the external engine returns: something that is not a dict, or a dict,
  of which the orchestrator reads the truth value of \<^verbatim>\<open>success\<close> (\<open>None\<close> when the key is
  absent), \<^verbatim>\<open>data\<close> and \<^verbatim>\<open>errors\<close>. The value of \<^verbatim>\<open>errors\<close> is a string, a list of strings,
  or anything else, given by its \<^verbatim>\<open>str()\<close>.
\<close>

datatype errors_value = ErrStr string | ErrList "string list" | ErrOther string

record step_dict =
  success :: "bool option"
  data :: "string option"
  errors :: "errors_value option"

datatype returned = NotADict | Dict step_dict

text \<open>A call of a step: the records it sends to the job logger, then its result or exception.\<close>

record step_run =
  logged :: "log_record list"
  outcome :: "exn + returned"

text \<open>
  Everything outside the orchestrator that one run depends on:
  \<^item> \<open>setup_error\<close>: the exception, if any, raised while the job logger and the watcher are
    set up (\<^verbatim>\<open>build_job_logger\<close>, the search for the latest log file);
  \<^item> \<open>latest_log\<close>: the log file found for the watcher;
  \<^item> \<open>file_reads n\<close>: what reading the log file gives at the n-th call of
    \<^verbatim>\<open>_abort_if_error\<close> (0 before the start, 1 after step 1, 2 before zipping);
  \<^item> \<open>is_set n\<close>: the cancellation flag at the n-th check; the flag is shared with
    the request handlers, so each reading is an input;
  \<^item> \<open>use_database\<close>: no alternate-name table was uploaded and \<^verbatim>\<open>USE_DATABASE\<close> is true;
    \<open>db_fetch_error\<close>: the exception of the database fetch;
  \<^item> \<open>prepare_error\<close>: the exception raised while the configuration is validated and
    the processor is built;
  \<^item> \<open>step1\<close>, \<open>step2\<close>: the two steps of the engine, the second given its input folder;
  \<^item> \<open>zip_error\<close>: the exception of clearing the locks and zipping;
  \<^item> \<open>zip_exists\<close>: whether the archive is found afterwards;
  \<^item> \<open>str_http\<close>: the text \<^verbatim>\<open>str()\<close> of an \<^verbatim>\<open>HTTPException\<close> (a function of the web framework).
\<close>

record env =
  setup_error :: "exn option"
  latest_log :: "string option"
  file_reads :: "nat \<Rightarrow> string + string"
  is_set :: "nat \<Rightarrow> bool"
  use_database :: bool
  db_fetch_error :: "exn option"
  prepare_error :: "exn option"
  step1 :: step_run
  step2 :: "string option \<Rightarrow> step_run"
  zip_error :: "exn option"
  zip_exists :: bool
  str_http :: "nat \<Rightarrow> string \<Rightarrow> string"

text \<open>\<^verbatim>\<open>str(exc)\<close>\<close>

definition str_exn :: "env \<Rightarrow> exn \<Rightarrow> string" where
  "str_exn ev e = (case e of HTTPException code detail \<Rightarrow> str_http ev code detail | Error s \<Rightarrow> s)"

text \<open>\<^verbatim>\<open>sep.join(xs)\<close>\<close>

fun join :: "string \<Rightarrow> string list \<Rightarrow> string" where
  "join sep [] = []"
| "join sep [x] = x"
| "join sep (x # y # ys) = x @ sep @ join sep (y # ys)"

text \<open>The state of a run: the world, and the watcher attached to the job logger.\<close>

record run_state =
  wld :: world
  watcher :: FailFastLogWatcher

text \<open>
  How a statement ends: control goes on to the next statement, the function returns, or
  an exception is raised.
\<close>

datatype flow = Next | Return | Raise exn

type_synonym stmt = "run_state \<Rightarrow> flow \<times> run_state"

text \<open>Statements in sequence.\<close>

fun block :: "stmt list \<Rightarrow> stmt" where
  "block [] s = (Next, s)"
| "block (m # ms) s = (case m s of (Next, s') \<Rightarrow> block ms s' | (fl, s') \<Rightarrow> (fl, s'))"

definition ret :: stmt where
  "ret s = (Return, s)"

text \<open>A call \<^verbatim>\<open>update_status_safe(job_id=job_id, status=st, error=err)\<close>.\<close>

definition upd :: "string \<Rightarrow> string \<Rightarrow> string option \<Rightarrow> stmt" where
  "upd job_id st err s =
     (case update_status_safe job_id st err (wld s) of
        (Inl e, w') \<Rightarrow> (Raise e, s\<lparr>wld := w'\<rparr>)
      | (Inr _, w') \<Rightarrow> (Next, s\<lparr>wld := w'\<rparr>))"

text \<open>
  A record on the job logger: it is written out and handed to the watcher (logger and
  watcher both let levels from INFO through).
\<close>

definition log_emit :: "log_record \<Rightarrow> run_state \<Rightarrow> run_state" where
  "log_emit r s =
     (if levelno r \<ge> logging_INFO
      then s\<lparr>wld := emit_effect (JobLog (levelno r) (message r)) (wld s),
             watcher := emit (watcher s) r\<rparr>
      else s)"

text \<open>\<^verbatim>\<open>job_logger.info(msg)\<close>, \<^verbatim>\<open>.warning(msg)\<close>, \<^verbatim>\<open>.error(msg)\<close> and \<^verbatim>\<open>.exception(msg)\<close>.\<close>

definition job_log :: "nat \<Rightarrow> string \<Rightarrow> stmt" where
  "job_log lvl m s = (Next, log_emit \<lparr>levelno = lvl, message = m\<rparr> s)"

text \<open>
  \<^verbatim>\<open>if _abort_if_error(prefix): return\<close>, at the n-th call of \<^verbatim>\<open>_abort_if_error\<close>.
\<close>

definition abort_if_error :: "env \<Rightarrow> string \<Rightarrow> nat \<Rightarrow> string \<Rightarrow> stmt" where
  "abort_if_error ev job_id n pfx s =
     (let s1 = s\<lparr>watcher := scan_file_once (watcher s) (file_reads ev n)\<rparr>
      in if truthy (error_msg (watcher s1)) then
           (let m = pfx @ ''Fail-fast due to error in logs: '' @ the (error_msg (watcher s1))
            in block [upd job_id ''failed'' (Some m), job_log logging_ERROR m, ret] s1)
         else (Next, s1))"

text \<open>
  The n-th cancellation check:
  \<^verbatim>\<open>if cancel_event.is_set(): update_status_safe(..., "canceled", error=err); job_logger.warning(m); return\<close>.
\<close>

definition cancel_check :: "env \<Rightarrow> string \<Rightarrow> nat \<Rightarrow> string \<Rightarrow> string \<Rightarrow> stmt" where
  "cancel_check ev job_id n err m s =
     (if is_set ev n
      then block [upd job_id ''canceled'' (Some err), job_log logging_WARNING m, ret] s
      else (Next, s))"

text \<open>The optional fetch of the alternate names from a database, with its own handler.\<close>

definition db_fetch :: "env \<Rightarrow> string \<Rightarrow> stmt" where
  "db_fetch ev job_id s =
     (if use_database ev then
        (case job_log logging_INFO ''Attempting database fetch for LUTAssetTypes'' s of
           (_, s1) \<Rightarrow>
             (let s2 = s1\<lparr>wld := emit_effect DbFetch (wld s1)\<rparr>
              in case db_fetch_error ev of
                   None \<Rightarrow> job_log logging_INFO ''Database fetch succeeded'' s2
                 | Some exc \<Rightarrow>
                     (let m = ''Warning: could not load LUTAssetTypes from DB - '' @ str_exn ev exc
                      in block [upd job_id ''processing'' (Some m), job_log logging_WARNING m] s2)))
      else (Next, s))"

text \<open>Validation of the survey type, loading of the configuration, construction of the processor.\<close>

definition prepare :: "env \<Rightarrow> stmt" where
  "prepare ev s = (case prepare_error ev of None \<Rightarrow> (Next, s) | Some exc \<Rightarrow> (Raise exc, s))"

text \<open>A call of a step of the engine.\<close>

definition call_step :: "effect \<Rightarrow> step_run \<Rightarrow> run_state \<Rightarrow> (exn + returned) \<times> run_state" where
  "call_step eff sr s =
     (outcome sr, foldl (\<lambda>s r. log_emit r s) (s\<lparr>wld := emit_effect eff (wld s)\<rparr>) (logged sr))"

text \<open>\<^verbatim>\<open>isinstance(r, dict) and r.get("success", False)\<close>\<close>

definition succeeded :: "returned \<Rightarrow> bool" where
  "succeeded r = (case r of NotADict \<Rightarrow> False | Dict d \<Rightarrow> success d = Some True)"

text \<open>The message for a failed step 2: its \<^verbatim>\<open>errors\<close>, made a list and joined.\<close>

definition step2_message :: "step_dict \<Rightarrow> string" where
  "step2_message d =
     join ''; '' (case errors d of
                   None \<Rightarrow> [''Export failed'']
                 | Some (ErrStr e) \<Rightarrow> [e]
                 | Some (ErrList es) \<Rightarrow> es
                 | Some (ErrOther e) \<Rightarrow> [e])"

definition sql_select_row :: "string \<Rightarrow> (string \<rightharpoonup> job_row) \<Rightarrow> job_row option \<times> (string \<rightharpoonup> job_row)" where
  "sql_select_row job_id tbl = (tbl job_id, tbl)"

text \<open>\<^verbatim>\<open>UPDATE jobs SET result_zip_path = ?, updated_at = ? WHERE job_id = ?\<close>\<close>

definition sql_update_zip ::
  "string \<Rightarrow> string \<Rightarrow> string \<Rightarrow> (string \<rightharpoonup> job_row) \<Rightarrow> unit \<times> (string \<rightharpoonup> job_row)" where
  "sql_update_zip job_id zip_path now tbl =
     ((), case tbl job_id of
            None \<Rightarrow> tbl
          | Some r \<Rightarrow> tbl(job_id \<mapsto> r\<lparr>result_zip_path := Some zip_path, updated_at := now\<rparr>))"

text \<open>
  \<^verbatim>\<open>save_final_zip_location(job_id, zip_location)\<close>. Its database accesses are not retried,
  and the bare \<^verbatim>\<open>raise\<close> for a missing archive is a \<^verbatim>\<open>RuntimeError\<close>.
\<close>

definition save_final_zip_location :: "env \<Rightarrow> string \<Rightarrow> string \<Rightarrow> stmt" where
  "save_final_zip_location ev job_id zip_location s =
     (case db_transaction (sql_select_row job_id) (wld s) of
        (Inl e, w1) \<Rightarrow> (Raise (Error e), s\<lparr>wld := w1\<rparr>)
      | (Inr None, w1) \<Rightarrow> (Raise (HTTPException 404 ''Job not found''), s\<lparr>wld := w1\<rparr>)
      | (Inr (Some r), w1) \<Rightarrow>
          if RUNNING_JOBS w1 job_id \<noteq> None \<and> status r \<in> set [''queued'', ''processing'', ''cancelling'']
          then (Raise (HTTPException 409 ''Job is not finished yet''), s\<lparr>wld := w1\<rparr>)
          else if \<not> (zip_location \<noteq> [] \<and> zip_exists ev)
          then (Raise (Error ''No active exception to reraise''), s\<lparr>wld := w1\<rparr>)
          else if \<not> truthy (output_dir r)
          then (Raise (HTTPException 409 ''Job has no output_dir recorded''), s\<lparr>wld := w1\<rparr>)
          else (case read_clock w1 of
                  (now, w2) \<Rightarrow>
                    (case db_transaction (sql_update_zip job_id zip_location now) w2 of
                       (Inl e, w3) \<Rightarrow> (Raise (Error e), s\<lparr>wld := w3\<rparr>)
                     | (Inr _, w3) \<Rightarrow> (Next, s\<lparr>wld := w3\<rparr>))))"

definition quote :: "string \<Rightarrow> string" where
  "quote x = [CHR 0x27] @ x @ [CHR 0x27]"

text \<open>Step 3: zipping, the write of status complete, recording the archive.\<close>

definition zip_and_complete :: "env \<Rightarrow> string \<Rightarrow> string \<Rightarrow> stmt" where
  "zip_and_complete ev job_id output_dir' =
     (let output_base = output_dir' @ ''/results''; zip_dest = output_dir' @ ''/results.zip''
      in block
          [job_log logging_INFO
             (''Step 3: zipping output from '' @ quote output_base @ '' to '' @ quote zip_dest),
           abort_if_error ev job_id 2 ''before zip: '',
           job_log logging_INFO ''Clearing caches before zipping'',
           (\<lambda>s. let s1 = s\<lparr>wld := emit_effect ZipDirectory (emit_effect ClearLocks (wld s))\<rparr>
                in case zip_error ev of
                     None \<Rightarrow> job_log logging_INFO (''Zipping output completed: '' @ zip_dest) s1
                   | Some xc \<Rightarrow>
                       (let m = ''Zipping failed: '' @ str_exn ev xc
                        in block [upd job_id ''failed'' (Some m), job_log logging_ERROR m, ret] s1)),
           job_log logging_INFO ''Zipping completed'',
           upd job_id ''complete'' None,
           save_final_zip_location ev job_id zip_dest,
           job_log logging_INFO ''Job completed successfully''])"

text \<open>Step 2 and what follows it; \<open>input_folder\<close> is \<^verbatim>\<open>step1.get("data")\<close>.\<close>

definition export_and_finish :: "env \<Rightarrow> string \<Rightarrow> string \<Rightarrow> string option \<Rightarrow> stmt" where
  "export_and_finish ev job_id output_dir' input_folder =
     block
       [cancel_check ev job_id 3 ''Canceled before export'' ''Cancellation before export'',
        job_log logging_INFO ''Step 2: export feature collections - start'',
        (\<lambda>s. case call_step (Step2 input_folder) (step2 ev input_folder) s of
               (Inl exc, s1) \<Rightarrow> (Raise exc, s1)
             | (Inr NotADict, s1) \<Rightarrow>
                 block [upd job_id ''failed''
                          (Some ''Internal error - export_feature_collections did not return a dict''),
                        job_log logging_ERROR ''Step 2 failed: invalid return type'', ret] s1
             | (Inr (Dict d), s1) \<Rightarrow>
                 if success d \<noteq> Some True then
                   (let m = step2_message d
                    in block [upd job_id ''failed'' (Some m),
                              job_log logging_ERROR (''Step 2 failed: '' @ m), ret] s1)
                 else
                   block [job_log logging_INFO ''Step 2: completed successfully'',
                          cancel_check ev job_id 4 ''Canceled before zip'' ''Cancellation before zip'',
                          zip_and_complete ev job_id output_dir'] s1)]"

text \<open>Step 1 and what follows it.\<close>

definition grid_and_rest :: "env \<Rightarrow> string \<Rightarrow> string \<Rightarrow> stmt" where
  "grid_and_rest ev job_id output_dir' =
     block
       [cancel_check ev job_id 2 ''Canceled before grid processing''
          ''Cancellation before grid processing'',
        job_log logging_INFO ''Step 1: process grid and clipping - start'',
        (\<lambda>s. case call_step Step1 (step1 ev) s of
               (Inl exc, s1) \<Rightarrow> (Raise exc, s1)
             | (Inr r, s1) \<Rightarrow>
                 if \<not> succeeded r then
                   block [upd job_id ''failed'' (Some ''Grid processing failed''),
                          job_log logging_ERROR ''Step 1 failed'',
                          abort_if_error ev job_id 1 ''after step1: '',
                          ret] s1
                 else
                   block [job_log logging_INFO ''Step 1: completed successfully'',
                          export_and_finish ev job_id output_dir'
                            (case r of Dict d \<Rightarrow> data d | NotADict \<Rightarrow> None)] s1)]"

text \<open>The body of the \<^verbatim>\<open>try\<close> statement.\<close>

definition try_body :: "env \<Rightarrow> string \<Rightarrow> string \<Rightarrow> stmt" where
  "try_body ev job_id output_dir' =
     block
       [upd job_id ''processing'' None,
        job_log logging_INFO ''Job started'',
        abort_if_error ev job_id 0 ''pre-start: '',
        cancel_check ev job_id 0 ''Canceled before start'' ''Cancellation flag set before start'',
        db_fetch ev job_id,
        cancel_check ev job_id 1 ''Canceled before processing'' ''Cancellation before processing'',
        prepare ev,
        grid_and_rest ev job_id output_dir']"

text \<open>The handler \<^verbatim>\<open>except Exception as exc\<close>.\<close>

definition except_handler :: "env \<Rightarrow> string \<Rightarrow> exn \<Rightarrow> stmt" where
  "except_handler ev job_id exc =
     block [upd job_id ''failed'' (Some (str_exn ev exc)),
            job_log logging_ERROR ''Unhandled error in job'']"

text \<open>The \<^verbatim>\<open>finally\<close> clause.\<close>

definition finally_clause :: "string \<Rightarrow> stmt" where
  "finally_clause job_id s =
     job_log logging_INFO ''Job finalizer finished''
       (s\<lparr>wld := (wld s)\<lparr>RUNNING_JOBS := (RUNNING_JOBS (wld s))(job_id := None)\<rparr>\<rparr>)"

text \<open>\<^verbatim>\<open>try: ... except Exception: ... finally: ...\<close>\<close>

definition try_except_finally :: "env \<Rightarrow> string \<Rightarrow> string \<Rightarrow> stmt" where
  "try_except_finally ev job_id output_dir' s =
     (case try_body ev job_id output_dir' s of
        (Raise exc, s1) \<Rightarrow>
          (case except_handler ev job_id exc s1 of
             (Raise exc', s2) \<Rightarrow> (Raise exc', snd (finally_clause job_id s2))
           | (_, s2) \<Rightarrow> finally_clause job_id s2)
      | (_, s1) \<Rightarrow> finally_clause job_id s1)"

text \<open>
  \<^verbatim>\<open>run_survey_mapper\<close>, the background task of a job: the exception that leaves it, if any,
  and the world after it.
\<close>

definition run_survey_mapper :: "env \<Rightarrow> string \<Rightarrow> string \<Rightarrow> world \<Rightarrow> exn option \<times> world" where
  "run_survey_mapper ev job_id output_dir' w =
     (case setup_error ev of
        Some exc \<Rightarrow> (Some exc, w)
      | None \<Rightarrow>
          (case try_except_finally ev job_id output_dir'
                  \<lparr>wld = w, watcher = new_watcher (latest_log ev) True\<rparr> of
             (Raise exc, s) \<Rightarrow> (Some exc, wld s)
           | (_, s) \<Rightarrow> (None, wld s)))"

text \<open>The statuses that the writes to a job's status carry, in the order of the attempts.\<close>

definition orch_writes :: "string \<Rightarrow> effect list \<Rightarrow> string list" where
  "orch_writes job_id es =
     concat (map (\<lambda>e. case e of DbUpdate j st \<Rightarrow> (if j = job_id then [st] else []) | _ \<Rightarrow> []) es)"

text \<open>Whether a step was called.\<close>

definition step2_called :: "effect list \<Rightarrow> bool" where
  "step2_called es = list_ex (\<lambda>e. case e of Step2 _ \<Rightarrow> True | _ \<Rightarrow> False) es"

definition step1_called :: "effect list \<Rightarrow> bool" where
  "step1_called es = list_ex (\<lambda>e. case e of Step1 \<Rightarrow> True | _ \<Rightarrow> False) es"

section \<open>Inputs used in the claims about the orchestrator\<close>

definition ok_dict :: step_dict where
  "ok_dict = \<lparr>success = Some True, data = Some ''output/job-1/_export_temp'', errors = Some (ErrList [])\<rparr>"

text \<open>A run in which nothing goes wrong and nobody cancels.\<close>

definition quiet_env :: env where
  "quiet_env =
     \<lparr>setup_error = None,
      latest_log = Some ''output/job-1/logs/log_20250101_000000.txt'',
      file_reads = (\<lambda>n. Inr ''2025-01-01 00:00:01,000 | INFO | survey_mapper.job.job-1 | Job started''),
      is_set = (\<lambda>n. False),
      use_database = False,
      db_fetch_error = None,
      prepare_error = None,
      step1 = \<lparr>logged = [], outcome = Inr (Dict ok_dict)\<rparr>,
      step2 = (\<lambda>i. \<lparr>logged = [], outcome = Inr (Dict ok_dict)\<rparr>),
      zip_error = None,
      zip_exists = True,
      str_http = (\<lambda>code detail. detail)\<rparr>"

text \<open>
  The first checkpoint reports the failure \<^verbatim>\<open>grid failed\<close>: it logs it as a warning and
  returns \<^verbatim>\<open>{"success": False, "data": None, "errors": ["grid failed"]}\<close>.
\<close>

definition grid_failed_env :: env where
  "grid_failed_env =
     quiet_env\<lparr>step1 := \<lparr>logged = [\<lparr>levelno = logging_WARNING, message = ''grid failed''\<rparr>],
                          outcome = Inr (Dict \<lparr>success = Some False, data = None,
                                               errors = Some (ErrList [''grid failed''])\<rparr>)\<rparr>\<rparr>"

text \<open>The log directory of the job cannot be created.\<close>

definition setup_fails_env :: env where
  "setup_fails_env =
     quiet_env\<lparr>setup_error := Some (Error ''[Errno 13] Permission denied: output/job-1/logs'')\<rparr>"

text \<open>The cancellation flag is set from the start.\<close>

definition cancelled_env :: env where
  "cancelled_env = quiet_env\<lparr>is_set := (\<lambda>n. True)\<rparr>"

text \<open>The first checkpoint raises.\<close>

definition step1_raises_env :: env where
  "step1_raises_env = quiet_env\<lparr>step1 := \<lparr>logged = [], outcome = Inl (Error ''arcpy crashed'')\<rparr>\<rparr>"

section \<open>Status transitions under interleaving\<close>

text \<open>The transition graph of the specification, as the claim states it.\<close>

definition spec_edges :: "(string \<times> string) list" where
  "spec_edges =
     [(''queued'', ''processing''), (''processing'', ''cancelling''),
      (''cancelling'', ''canceled''), (''processing'', ''failed''),
      (''processing'', ''complete''), (''queued'', ''canceled'')]"

text \<open>
  The further moves that the code makes by design: the cancellation handler moves a
  queued job to cancelling; the orchestrator writes processing at its start, also over
  cancelling; it writes canceled after processing; it writes failed or complete over
  cancelling; and, when the write of processing is lost, it writes failed or complete
  over queued.
\<close>

definition extra_edges :: "(string \<times> string) list" where
  "extra_edges =
     [(''queued'', ''cancelling''), (''cancelling'', ''processing''),
      (''processing'', ''canceled''), (''cancelling'', ''failed''),
      (''cancelling'', ''complete''), (''queued'', ''failed''), (''queued'', ''complete'')]"

definition terminal :: "string \<Rightarrow> bool" where
  "terminal s = (s \<in> set [''canceled'', ''failed'', ''complete''])"

text \<open>
  What the cancellation handler's guarded \<^verbatim>\<open>UPDATE\<close> does to the status of the row
  (see \<open>sql_mark_cancelling\<close>).
\<close>

definition cancel_write :: "string \<Rightarrow> string" where
  "cancel_write s = (if s \<in> set [''queued'', ''processing''] then ''cancelling'' else s)"

text \<open>
  The writers of a job's status take turns in any order: \<open>Orch b\<close> is the next attempt of
  the orchestrator to write a status, which lands (\<open>b\<close>) or fails; \<open>Cancel\<close> is the
  write of the cancellation handler. Each write is one transaction.
\<close>

datatype action = Orch bool | Cancel

text \<open>
  The statuses that the row goes through, from status \<open>s\<close>, when the orchestrator's
  attempts carry the statuses \<open>ws\<close>, under a schedule.
\<close>

fun trajectory :: "string \<Rightarrow> string list \<Rightarrow> action list \<Rightarrow> string list" where
  "trajectory s ws [] = [s]"
| "trajectory s ws (Cancel # acts) = s # trajectory (cancel_write s) ws acts"
| "trajectory s [] (Orch b # acts) = trajectory s [] acts"
| "trajectory s (st # ws) (Orch b # acts) = s # trajectory (if b then st else s) ws acts"

text \<open>Every change of status along a trajectory is an edge of the graph.\<close>

fun moves_ok :: "(string \<times> string) list \<Rightarrow> string list \<Rightarrow> bool" where
  "moves_ok g (a # b # rest) = ((a = b \<or> (a, b) \<in> set g) \<and> moves_ok g (b # rest))"
| "moves_ok g rest = True"

text \<open>A write of failed comes after a write of complete.\<close>

fun failed_after_complete :: "string list \<Rightarrow> bool" where
  "failed_after_complete [] = False"
| "failed_after_complete (x # xs) =
     ((x = ''complete'' \<and> ''failed'' \<in> set xs) \<or> failed_after_complete xs)"

text \<open>
  The order of the orchestrator's writes, as an automaton over the statuses written so
  far: only processing (\<open>Proc\<close>); then one terminal status (\<open>Term\<close>); failed after
  complete (\<open>Slip\<close>); anything else (\<open>Junk\<close>).
\<close>

datatype phase = Proc | Term string | Slip | Junk

fun next_phase :: "phase \<Rightarrow> string \<Rightarrow> phase" where
  "next_phase Proc st =
     (if st = ''processing'' then Proc else if terminal st then Term st else Junk)"
| "next_phase (Term t) st =
     (if st = t then Term t else if t = ''complete'' \<and> st = ''failed'' then Slip else Junk)"
| "next_phase Slip st = (if st = ''failed'' then Slip else Junk)"
| "next_phase Junk st = Junk"

definition phase_of :: "string list \<Rightarrow> phase" where
  "phase_of ws = foldl next_phase Proc ws"

text \<open>
  What a statement of the orchestrator may do, in terms of the statuses \<open>p\<close> it has
  written when it ends with the flow \<open>fl\<close>. A statement in the middle of the \<^verbatim>\<open>try\<close> body
  (\<open>flow_cont\<close>) goes on or raises only after writes of processing, and returns after
  writes of processing or of one terminal status. The body as a whole (\<open>flow_last\<close>) may
  also end, or raise, after the write of complete.
\<close>

definition flow_cont :: "flow \<Rightarrow> phase \<Rightarrow> bool" where
  "flow_cont fl p =
     (case fl of
        Next \<Rightarrow> p = Proc
      | Return \<Rightarrow> (case p of Proc \<Rightarrow> True | Term t \<Rightarrow> terminal t | _ \<Rightarrow> False)
      | Raise e \<Rightarrow> p = Proc)"

definition flow_last :: "flow \<Rightarrow> phase \<Rightarrow> bool" where
  "flow_last fl p =
     (case fl of
        Next \<Rightarrow> p = Proc \<or> p = Term ''complete''
      | Return \<Rightarrow> (case p of Proc \<Rightarrow> True | Term t \<Rightarrow> terminal t | _ \<Rightarrow> False)
      | Raise e \<Rightarrow> p = Proc \<or> p = Term ''complete'')"

text \<open>
  A statement only adds effects to the trace, leaves the registry alone, and its writes
  of the job's status fit its flow.
\<close>

definition stmt_spec :: "(flow \<Rightarrow> phase \<Rightarrow> bool) \<Rightarrow> string \<Rightarrow> stmt \<Rightarrow> bool" where
  "stmt_spec ok job_id m =
     (\<forall>s. \<exists>es. trace (wld (snd (m s))) = trace (wld s) @ es
              \<and> ok (fst (m s)) (phase_of (orch_writes job_id es)))"

text \<open>
  The order of writes is one that the automaton accepts: writes of processing, then
  possibly writes of one terminal status.
\<close>

definition accepted :: "phase \<Rightarrow> bool" where
  "accepted p = (case p of Proc \<Rightarrow> True | Term t \<Rightarrow> terminal t | _ \<Rightarrow> False)"

text \<open>
  The stored status \<open>s\<close> fits what the orchestrator has written so far: it is not yet
  terminal, or it is the terminal status that the orchestrator wrote.
\<close>

definition consistent :: "phase \<Rightarrow> string \<Rightarrow> bool" where
  "consistent p s =
     (case p of
        Proc \<Rightarrow> s \<in> set [''queued'', ''processing'', ''cancelling'']
      | Term t \<Rightarrow> terminal t \<and> s \<in> set [''queued'', ''processing'', ''cancelling'', t]
      | _ \<Rightarrow> False)"

text \<open>Two schedules of the request handler and the orchestrator.\<close>

definition cancel_midway :: "action list" where
  "cancel_midway = [Orch True, Cancel, Orch True, Cancel, Orch False]"

definition cancel_first :: "action list" where
  "cancel_first = [Cancel, Orch True, Orch True]"

section \<open>Verified properties\<close>

subsection \<open>Log classifier\<close>









lemma classify_raw_error:
  assumes "parse_structured iso_ok raw = None"
    and "\<not> blank (rstrip_crlf raw)"
    and "contains ''error'' (lower (rstrip_crlf raw))"
  shows "classify_line iso_ok fname mtime st raw =
           st\<lparr>heap := heap st @ [raw_error_entry fname mtime (rstrip_crlf raw)],
              error_ix := error_ix st @ [length (heap st)],
              last_entry := Some (length (heap st))\<rparr>"
  using assms
  by (simp add: classify_line_def Let_def append_and_remember_def append_entry_def
      raw_error_entry_def)

lemma kept_append:
  "kept a v st \<Longrightarrow> kept a v (append_and_remember b e st)
     \<and> last_entry (append_and_remember b e st) \<noteq> Some a"
  by (cases b) (auto simp: kept_def append_and_remember_def append_entry_def Let_def nth_append)

text \<open>An entry that is no longer the latest one is never changed again.\<close>

lemma kept_classify_line:
  assumes "kept a v st" "last_entry st \<noteq> Some a"
  shows "kept a v (classify_line iso_ok fname mtime st raw)
     \<and> last_entry (classify_line iso_ok fname mtime st raw) \<noteq> Some a"
proof -
  have upd: "kept a v (st\<lparr>heap := (heap st)[b := x]\<rparr>)" if "b \<noteq> a" for b x
    using assms(1) that by (simp add: kept_def)
  show ?thesis
    using assms kept_append[OF assms(1)] upd
    by (auto simp: classify_line_def Let_def split: option.splits)
qed

lemma kept_foldl_lines:
  "kept a v st \<Longrightarrow> last_entry st \<noteq> Some a
     \<Longrightarrow> kept a v (foldl (classify_line iso_ok fname mtime) st ls)"
  by (induction ls arbitrary: st) (auto dest: kept_classify_line)

text \<open>The latest entry takes up the continuation of the lines that follow.\<close>

lemma kept_continuation:
  "kept a v st \<Longrightarrow> last_entry st = Some a
     \<Longrightarrow> kept a (v\<lparr>msg := msg v @ continuation iso_ok post\<rparr>)
           (foldl (classify_line iso_ok fname mtime) st post)"
proof (induction post arbitrary: st v)
  case Nil
  then show ?case by simp
next
  case (Cons raw rest)
  let ?st = "classify_line iso_ok fname mtime st raw"
  consider (own) "parse_structured iso_ok raw \<noteq> None
        \<or> (\<not> blank (rstrip_crlf raw) \<and> (contains ''error'' (lower (rstrip_crlf raw))
              \<or> contains ''warning'' (lower (rstrip_crlf raw))))"
    | (blank) "parse_structured iso_ok raw = None" "blank (rstrip_crlf raw)"
    | (bare) "parse_structured iso_ok raw = None" "\<not> blank (rstrip_crlf raw)"
        "\<not> contains ''error'' (lower (rstrip_crlf raw))"
        "\<not> contains ''warning'' (lower (rstrip_crlf raw))"
    by blast
  then show ?case
  proof cases
    case own
    then have c: "continuation iso_ok (raw # rest) = []"
      by (auto simp: Let_def split: option.splits)
    from own have "kept a v ?st \<and> last_entry ?st \<noteq> Some a"
      using kept_append[OF Cons.prems(1)]
      by (auto simp: classify_line_def Let_def split: option.splits)
    then have "kept a v (foldl (classify_line iso_ok fname mtime) ?st rest)"
      by (simp add: kept_foldl_lines)
    then show ?thesis unfolding foldl_Cons c by simp
  next
    case blank
    then have "?st = st" "continuation iso_ok (raw # rest) = continuation iso_ok rest"
      by (simp_all add: classify_line_def Let_def)
    then show ?thesis using Cons.IH[OF Cons.prems] by simp
  next
    case bare
    let ?v = "v\<lparr>msg := msg v @ [LF] @ rstrip_crlf raw\<rparr>"
    from bare Cons.prems have st: "?st = st\<lparr>heap := (heap st)[a := ?v]\<rparr>"
      by (simp add: classify_line_def Let_def kept_def)
    have "kept a ?v ?st" "last_entry ?st = Some a"
      using Cons.prems by (simp_all add: st kept_def)
    from Cons.IH[OF this] bare show ?thesis
      by (simp add: Let_def)
  qed
qed

lemma kept_classify_file:
  assumes "kept a v st" shows "kept a v (classify_file iso_ok st f)"
proof -
  have "kept a v (st\<lparr>last_entry := None\<rparr>)" using assms by (simp add: kept_def)
  then have "kept a v (foldl (classify_line iso_ok (name f) (mtime_key f))
                         (st\<lparr>last_entry := None\<rparr>) (lines f))"
    by (rule kept_foldl_lines) simp
  then show ?thesis
    by (auto simp: classify_file_def mtime_key_def Let_def append_entry_def kept_def nth_append
        split: option.splits)
qed

lemma kept_foldl_files:
  "kept a v st \<Longrightarrow> kept a v (foldl (classify_file iso_ok) st fs)"
  by (induction fs arbitrary: st) (auto intro: kept_classify_file)

lemma kept_view: "kept a v st \<Longrightarrow> v \<in> set (error (view st))"
  by (auto simp: kept_def view_def)

lemma raw_error_entry_msg:
  "(raw_error_entry fname mtime m)\<lparr>msg := msg (raw_error_entry fname mtime m) @ c\<rparr>
     = raw_error_entry fname mtime (m @ c)"
  by (simp add: raw_error_entry_def)

lemma classify_file_raw_error:
  assumes "lines f = pre @ raw # post"
    and "parse_structured iso_ok raw = None"
    and "\<not> blank (rstrip_crlf raw)"
    and "contains ''error'' (lower (rstrip_crlf raw))"
  shows "\<exists>a. kept a (raw_error_entry (name f) (mtime_key f)
                      (rstrip_crlf raw @ continuation iso_ok post))
               (classify_file iso_ok st f)"
proof -
  let ?cl = "classify_line iso_ok (name f) (mtime_key f)"
  let ?st1 = "foldl ?cl (st\<lparr>last_entry := None\<rparr>) pre"
  let ?a = "length (heap ?st1)"
  let ?e = "raw_error_entry (name f) (mtime_key f) (rstrip_crlf raw)"
  let ?e' = "raw_error_entry (name f) (mtime_key f) (rstrip_crlf raw @ continuation iso_ok post)"
  have 2: "kept ?a ?e (?cl ?st1 raw)" "last_entry (?cl ?st1 raw) = Some ?a"
    by (simp_all add: classify_raw_error[OF assms(2-4)] kept_def)
  have "kept ?a ?e' (foldl ?cl (?cl ?st1 raw) post)"
    using kept_continuation[OF 2, of iso_ok post "name f" "mtime_key f"]
    by (simp only: raw_error_entry_msg)
  then have "kept ?a ?e' (foldl ?cl (st\<lparr>last_entry := None\<rparr>) (lines f))"
    by (simp add: assms(1))
  then have "kept ?a ?e' (classify_file iso_ok st f)"
    by (auto simp: classify_file_def mtime_key_def Let_def append_entry_def kept_def nth_append
        split: option.splits)
  then show ?thesis ..
qed

lemma collect_raw_error:
  assumes "stat_all (fst d @ snd d) = None"
    and "k < length (files_read d max_files)"
    and "lines (files_read d max_files ! k) = pre @ raw # post"
    and "parse_structured iso_ok raw = None"
    and "\<not> blank (rstrip_crlf raw)"
    and "contains ''error'' (lower (rstrip_crlf raw))"
  shows "\<exists>res. collect_logs_grouped_all iso_ok (Some d) max_files = Inr res
           \<and> raw_error_entry (name (files_read d max_files ! k))
                 (mtime_key (files_read d max_files ! k))
                 (rstrip_crlf raw @ continuation iso_ok post) \<in> set (error res)"
proof -
  let ?fs = "files_read d max_files"
  let ?f = "?fs ! k"
  let ?e = "raw_error_entry (name ?f) (mtime_key ?f) (rstrip_crlf raw @ continuation iso_ok post)"
  have ne: "fst d @ snd d \<noteq> []" using assms(2) by (auto simp: files_read_def)
  have split: "?fs = take k ?fs @ ?f # drop (Suc k) ?fs"
    using assms(2) by (rule id_take_nth_drop)
  obtain a where
    "kept a ?e (classify_file iso_ok (foldl (classify_file iso_ok) init_cstate (take k ?fs)) ?f)"
    using classify_file_raw_error[OF assms(3-6)] by blast
  then have "kept a ?e (foldl (classify_file iso_ok)
       (classify_file iso_ok (foldl (classify_file iso_ok) init_cstate (take k ?fs)) ?f)
       (drop (Suc k) ?fs))"
    by (rule kept_foldl_files)
  then have "kept a ?e (foldl (classify_file iso_ok) init_cstate (take k ?fs @ ?f # drop (Suc k) ?fs))"
    by simp
  then have "kept a ?e (foldl (classify_file iso_ok) init_cstate ?fs)"
    using split by simp
  then have "?e \<in> set (error (view (foldl (classify_file iso_ok) init_cstate ?fs)))"
    by (rule kept_view)
  moreover have "collect_logs_grouped_all iso_ok (Some d) max_files
      = Inr (view (foldl (classify_file iso_ok) init_cstate ?fs))"
    using ne assms(1) by (cases d) (auto simp: collect_logs_grouped_all_def files_read_def Let_def)
  ultimately show ?thesis by simp
qed

lemma traceback_line_facts:
  "parse_structured (\<lambda>_. True) traceback_line = None"
  "\<not> blank (rstrip_crlf traceback_line)"
  "contains ''error'' (lower (rstrip_crlf traceback_line))"
  "contains ''warning'' (lower (rstrip_crlf traceback_line))"
  "rstrip_crlf traceback_line = ''Traceback: fatal ERROR after warning''"
  "rstrip_crlf traceback_line @ continuation (\<lambda>_. True) [''  File x, line 3'' @ [LF]]
     = ''Traceback: fatal ERROR after warning'' @ [LF] @ ''  File x, line 3''"
  by code_simp+

text \<open>
  C8, as stated, fails when a bare line follows the raw error line: in what the
  classifier returns for a log directory whose only file holds the line
  \<^verbatim>\<open>Traceback: fatal ERROR after warning\<close> and then the line \<^verbatim>\<open>  File x, line 3\<close>, the
  error bucket has one entry, and its message is not the raw line but the raw line, a
  newline and the line that follows.
\<close>

theorem raw_error_message_extended_counterexample:
  "map msg (error (projr (collect_logs_grouped_all (\<lambda>_. True) (Some ([traceback_file], [])) 50)))
     = [''Traceback: fatal ERROR after warning'' @ [LF] @ ''  File x, line 3'']
   \<and> rstrip_crlf (hd (lines traceback_file)) = ''Traceback: fatal ERROR after warning''
   \<and> rstrip_crlf (hd (lines traceback_file))
       \<notin> set (map msg (error (projr (collect_logs_grouped_all (\<lambda>_. True)
                                        (Some ([traceback_file], [])) 50))))"
  by code_simp

text \<open>
  C8, amended. Take a log directory whose files can all be examined, one of the files
  that the classifier reads (the first \<open>max_files\<close> candidates, oldest first), and in it a
  line that matches neither structured grammar, is not blank and contains \<^verbatim>\<open>error\<close> in
  any letter case. Then the classifier returns a result, and its error bucket holds an
  entry with level ERROR and source \<^verbatim>\<open>raw\<close>, made for that line, whose message is the
  line (without its line terminator) followed by the continuation of the lines after it:
  the bare lines that directly follow, each joined after a newline. The message is the
  raw line itself when no bare line follows. Nothing is assumed about the word
  \<^verbatim>\<open>warning\<close> in the line or about the lines before it: whatever the classifier holds
  when it reaches the line, it appends one new entry to the error bucket and makes it the
  latest entry, leaving the warning bucket and every earlier entry as they are, so the
  error check comes before the warning check and before continuation merging.
\<close>

theorem raw_error_line_collected:
  assumes "stat_all (fst d @ snd d) = None"
    and "k < length (files_read d max_files)"
    and "lines (files_read d max_files ! k) = pre @ raw # post"
    and "parse_structured iso_ok raw = None"
    and "\<not> blank (rstrip_crlf raw)"
    and "contains ''error'' (lower (rstrip_crlf raw))"
  shows "(\<exists>res. collect_logs_grouped_all iso_ok (Some d) max_files = Inr res
           \<and> raw_error_entry (name (files_read d max_files ! k))
                 (mtime_key (files_read d max_files ! k))
                 (rstrip_crlf raw @ continuation iso_ok post) \<in> set (error res))
       \<and> classify_line iso_ok fname mtime st raw =
           st\<lparr>heap := heap st @ [raw_error_entry fname mtime (rstrip_crlf raw)],
              error_ix := error_ix st @ [length (heap st)],
              last_entry := Some (length (heap st))\<rparr>
       \<and> level (raw_error_entry fname mtime m) = ''ERROR''
       \<and> logger (raw_error_entry fname mtime m) = ''raw''
       \<and> msg (raw_error_entry fname mtime m) = m
       \<and> continuation iso_ok [] = []"
  using collect_raw_error[OF assms] classify_raw_error[OF assms(4-6)]
  by (simp add: raw_error_entry_def)

text \<open>
  An instance: the line also contains \<^verbatim>\<open>warning\<close>; in the file it is followed by a bare
  line, and in the classifier state \<open>busy_cstate\<close> it comes after an entry that a
  continuation would extend.
\<close>

theorem raw_error_line_collected_witness:
  "stat_all [traceback_file] = None
   \<and> files_read ([traceback_file], []) 50 = [traceback_file]
   \<and> lines traceback_file = [] @ traceback_line # [''  File x, line 3'' @ [LF]]
   \<and> parse_structured (\<lambda>_. True) traceback_line = None
   \<and> \<not> blank (rstrip_crlf traceback_line)
   \<and> contains ''error'' (lower (rstrip_crlf traceback_line))
   \<and> contains ''warning'' (lower (rstrip_crlf traceback_line))
   \<and> raw_error_entry ''log_20250101_000000.txt'' 7
        (''Traceback: fatal ERROR after warning'' @ [LF] @ ''  File x, line 3'')
       \<in> set (error (projr (collect_logs_grouped_all (\<lambda>_. True) (Some ([traceback_file], [])) 50)))
   \<and> last_entry busy_cstate = Some 0
   \<and> classify_line (\<lambda>_. True) ''a.txt'' 7 busy_cstate traceback_line
       = busy_cstate\<lparr>heap := heap busy_cstate @
                               [raw_error_entry ''a.txt'' 7 ''Traceback: fatal ERROR after warning''],
              error_ix := [1], last_entry := Some 1\<rparr>"
proof -
  note f = traceback_line_facts
  have 1: "stat_all (fst ([traceback_file], []) @ snd ([traceback_file], [])) = None"
    by (simp add: traceback_file_def)
  have r: "files_read ([traceback_file], []) 50 = [traceback_file]"
    by (simp add: files_read_def)
  have 2: "0 < length (files_read ([traceback_file], []) 50)"
    by (simp add: r)
  have 3: "lines (files_read ([traceback_file], []) 50 ! 0)
             = [] @ traceback_line # [''  File x, line 3'' @ [LF]]"
    unfolding r by (simp add: traceback_file_def)
  have n: "name traceback_file = ''log_20250101_000000.txt''" "mtime_key traceback_file = 7"
    by (simp_all add: traceback_file_def mtime_key_def)
  note T = raw_error_line_collected[OF 1 2 3 f(1) f(2) f(3), of "''a.txt''" 7 busy_cstate]
  from T obtain res where
    c: "collect_logs_grouped_all (\<lambda>_. True) (Some ([traceback_file], [])) 50 = Inr res"
    and m: "raw_error_entry (name (files_read ([traceback_file], []) 50 ! 0))
              (mtime_key (files_read ([traceback_file], []) 50 ! 0))
              (rstrip_crlf traceback_line @ continuation (\<lambda>_. True) [''  File x, line 3'' @ [LF]])
            \<in> set (error res)"
    by blast
  have 4: "raw_error_entry ''log_20250101_000000.txt'' 7
        (''Traceback: fatal ERROR after warning'' @ [LF] @ ''  File x, line 3'')
       \<in> set (error (projr (collect_logs_grouped_all (\<lambda>_. True) (Some ([traceback_file], [])) 50)))"
    using m unfolding c f(6) r by (simp add: n)
  have 5: "classify_line (\<lambda>_. True) ''a.txt'' 7 busy_cstate traceback_line
       = busy_cstate\<lparr>heap := heap busy_cstate @
                               [raw_error_entry ''a.txt'' 7 ''Traceback: fatal ERROR after warning''],
              error_ix := [1], last_entry := Some 1\<rparr>"
    using T unfolding f(5) by (simp add: busy_cstate_def)
  have 6: "stat_all [traceback_file] = None" "last_entry busy_cstate = Some 0"
    "lines traceback_file = [] @ traceback_line # [''  File x, line 3'' @ [LF]]"
    by (simp_all add: traceback_file_def busy_cstate_def)
  show ?thesis
    using 4 5 6 r f(1) f(2) f(3) f(4) by blast
qed

text \<open>
  C9, as stated, fails when the log directory does not exist: the result is empty but
  carries no note.
\<close>

theorem missing_logs_dir_counterexample:
  "collect_logs_grouped_all (\<lambda>_. True) None 50 =
     Inr \<lparr>info = [], warning = [], error = [], note' = None\<rparr>"
  by (simp add: collect_logs_grouped_all_def)

text \<open>
  C9, amended: when the log directory exists and holds no candidate log file, the
  classifier returns (it does not raise) the empty result with the non-empty note
  \<^verbatim>\<open>No log files found\<close>; when the log directory does not exist, it returns the empty
  result without a note.
\<close>

theorem no_candidates_note:
  "collect_logs_grouped_all iso_ok (Some ([], [])) max_files =
     Inr \<lparr>info = [], warning = [], error = [], note' = Some ''No log files found''\<rparr>
   \<and> ''No log files found'' \<noteq> []
   \<and> collect_logs_grouped_all iso_ok None max_files =
     Inr \<lparr>info = [], warning = [], error = [], note' = None\<rparr>"
  by (simp add: collect_logs_grouped_all_def)

theorem no_candidates_note_witness:
  "collect_logs_grouped_all (\<lambda>_. False) (Some ([], [])) 50 =
     Inr \<lparr>info = [], warning = [], error = [], note' = Some ''No log files found''\<rparr>"
  using no_candidates_note[of "\<lambda>_. False" 50] by simp

subsection \<open>Fail-fast watcher\<close>

lemma latched_step: "latched w \<Longrightarrow> watcher_step w ev = w"
  by (cases ev)
     (auto simp: emit_def scan_file_once_def latched_def py_or_def Let_def split: sum.splits)

lemma latched_run: "latched w \<Longrightarrow> watcher_run w evs = w"
  unfolding watcher_run_def by (induction evs) (simp_all add: latched_step)

lemma scan_file_once_idem: "scan_file_once (scan_file_once w rd) rd = scan_file_once w rd"
  by (auto simp: scan_file_once_def py_or_def truthy_def split: sum.splits option.splits)

lemma emit_latches:
  "\<not> latched w \<Longrightarrow> detects r \<Longrightarrow> message r \<noteq> [] \<Longrightarrow>
     error_msg (emit w r) = Some (message r) \<and> latched (emit w r)"
  by (auto simp: emit_def detects_def latched_def py_or_def truthy_def Let_def)

lemma scan_latches:
  "\<not> latched w \<Longrightarrow> poll_file w \<Longrightarrow> log_file_path w \<noteq> None \<Longrightarrow>
   RE_ARCGIS_ERR content \<or> ERROR_WORD content \<Longrightarrow>
     error_msg (scan_file_once w (Inr content)) = Some ''Error detected in log file''
     \<and> latched (scan_file_once w (Inr content))"
  by (auto simp: scan_file_once_def latched_def py_or_def truthy_def)

lemma scan_read_error_swallowed: "scan_file_once w (Inl e) = w"
  by (simp add: scan_file_once_def)

lemma first_message_kept:
  "\<not> latched w \<Longrightarrow> detects r \<Longrightarrow> message r \<noteq> [] \<Longrightarrow>
     error_msg (watcher_run w (Emit r # evs)) = Some (message r)"
  using emit_latches[of w r] latched_run[of "emit w r" evs] by (simp add: watcher_run_def)

text \<open>
  C4: the first detected message is not always retained. A new watcher receives a record
  at level ERROR whose message is the empty string, and then a record at level ERROR
  with the message \<^verbatim>\<open>boom\<close>. Both records are detections. After the first the watcher
  holds the empty message; \<^verbatim>\<open>self._error_msg or msg\<close> takes an empty string for an unset
  slot, so the second detection replaces it, and the watcher ends with \<^verbatim>\<open>boom\<close>. (A first
  message that is not empty is kept over every later event, a second scan of the same
  contents changes nothing, and a scan whose read raises leaves the watcher as it was:
  these are the lemmas above.)
\<close>

theorem first_message_not_retained:
  "detects empty_error_record
   \<and> error_msg (emit fresh_watcher empty_error_record) = Some (message empty_error_record)
   \<and> detects boom_record
   \<and> error_msg (watcher_run fresh_watcher [Emit empty_error_record, Emit boom_record]) = Some ''boom''
   \<and> message empty_error_record \<noteq> ''boom''"
  by (simp add: detects_def emit_def watcher_run_def empty_error_record_def boom_record_def
      fresh_watcher_def new_watcher_def py_or_def truthy_def logging_ERROR_def Let_def)

subsection \<open>Status store\<close>

lemma update_loop_fail_step:
  assumes "faults w = Some x # fs" "int (Suc a) < R" "0 \<le> b"
  shows "update_loop j s e R b now a w =
           update_loop j s e R b now (Suc a)
             (w\<lparr>faults := fs,
                trace := trace w @ [DbUpdate j s, AppWarning (Suc a) j s x, Sleep (b * of_nat (Suc a))]\<rparr>)"
proof -
  have "\<not> b * of_nat (Suc a) < 0"
    using assms(3) by (simp add: not_less)
  then show ?thesis
    using assms(1,2)
    by (subst update_loop.simps)
       (simp add: db_transaction_def emit_effect_def sleep_def Let_def del: of_nat_Suc)
qed

lemma update_loop_fail_prefix:
  assumes "faults w = map Some es @ rest" "int (a + length es) < R" "0 \<le> b"
  shows "update_loop j s e R b now a w =
           update_loop j s e R b now (a + length es)
             (w\<lparr>faults := rest, trace := trace w @ failed_rounds j s b a es\<rparr>)"
  using assms
proof (induction es arbitrary: a w)
  case Nil
  then have "w\<lparr>faults := rest\<rparr> = w" by (cases w) simp
  then show ?case by simp
next
  case (Cons x xs)
  let ?w1 = "w\<lparr>faults := map Some xs @ rest,
                trace := trace w @ [DbUpdate j s, AppWarning (Suc a) j s x, Sleep (b * of_nat (Suc a))]\<rparr>"
  have 1: "update_loop j s e R b now a w = update_loop j s e R b now (Suc a) ?w1"
    using Cons.prems by (intro update_loop_fail_step) simp_all
  have 2: "update_loop j s e R b now (Suc a) ?w1 =
           update_loop j s e R b now (Suc a + length xs)
             (?w1\<lparr>faults := rest, trace := trace ?w1 @ failed_rounds j s b (Suc a) xs\<rparr>)"
    using Cons.prems by (intro Cons.IH) simp_all
  show ?case
    unfolding 1 2 by simp
qed

lemma update_loop_success:
  assumes "store_ready w"
  shows "update_loop j s e R b now a w =
           (Inr (), w\<lparr>rows := snd (sql_update_status j s now e (rows w)),
                       faults := tl (faults w),
                       trace := trace w @ [DbUpdate j s]\<rparr>)"
  using assms
  by (subst update_loop.simps)
     (auto simp: db_transaction_def emit_effect_def store_ready_def sql_update_status_def
           split: list.splits option.splits)

lemma update_loop_exhausted:
  assumes "faults w = Some x # fs" "R \<le> int (Suc a)"
  shows "update_loop j s e R b now a w =
           (Inr (), w\<lparr>faults := fs, trace := trace w @ [DbUpdate j s, AppWarning (Suc a) j s x]\<rparr>)"
  using assms
  by (subst update_loop.simps)
     (simp add: db_transaction_def emit_effect_def Let_def)

lemma leading_split:
  "n \<le> leading_failures fs \<Longrightarrow> fs = map Some (map the (take n fs)) @ drop n fs"
proof (induction fs arbitrary: n)
  case Nil
  then show ?case by simp
next
  case (Cons f fs)
  then show ?case
    by (cases n; cases f) (auto simp: leading_failures_def)
qed

lemma leading_ready:
  "store_ready (w\<lparr>faults := drop (leading_failures fs) fs, trace := t\<rparr>)"
  by (induction fs) (auto simp: leading_failures_def store_ready_def split: list.splits)

lemma leading_le_length: "leading_failures fs \<le> length fs"
  by (simp add: leading_failures_def length_takeWhile_le)

lemma length_take_leading: "n \<le> leading_failures fs \<Longrightarrow> min (length fs) n = n"
  using leading_le_length[of fs] by simp


lemma nth_leading:
  "n < leading_failures fs \<Longrightarrow> fs ! n = Some (the (fs ! n)) \<and> n < length fs"
proof (induction fs arbitrary: n)
  case Nil
  then show ?case by (simp add: leading_failures_def)
next
  case (Cons f fs)
  then show ?case
    by (cases n; cases f) (auto simp: leading_failures_def)
qed

lemma drop_leading_ready:
  "faults w' = drop (leading_failures fs) fs \<Longrightarrow> store_ready w'"
  by (induction fs) (auto simp: leading_failures_def store_ready_def split: list.splits)

lemma update_status_safe_lands:
  assumes "leading_failures (faults w) < 6"
  shows "update_status_safe j s e w =
           (Inr (), w\<lparr>rows := snd (sql_update_status j s (clock w (ticks w)) e (rows w)),
                       faults := drop (Suc (leading_failures (faults w))) (faults w),
                       ticks := Suc (ticks w),
                       trace := trace w @ failed_rounds j s (1/4) 0
                                  (map the (take (leading_failures (faults w)) (faults w)))
                                @ [DbUpdate j s]\<rparr>)"
proof -
  let ?k = "leading_failures (faults w)"
  let ?es = "map the (take ?k (faults w))"
  let ?w0 = "w\<lparr>ticks := Suc (ticks w)\<rparr>"
  have len: "length ?es = ?k"
    by (simp add: length_take_leading)
  have f0: "faults ?w0 = map Some ?es @ drop ?k (faults w)"
    using leading_split[of ?k "faults w"] by simp
  let ?w1 = "?w0\<lparr>faults := drop ?k (faults w), trace := trace ?w0 @ failed_rounds j s (1/4) 0 ?es\<rparr>"
  have 1: "update_loop j s e 6 (1/4) (clock w (ticks w)) 0 ?w0 =
           update_loop j s e 6 (1/4) (clock w (ticks w)) (0 + length ?es) ?w1"
    using assms by (intro update_loop_fail_prefix[OF f0]) (simp_all add: len)
  have r: "store_ready ?w1"
    by (rule drop_leading_ready[of _ "faults w"]) simp
  show ?thesis
    unfolding update_status_safe_def update_status_safe'_def read_clock_def prod.case 1
      update_loop_success[OF r]
    by (simp add: drop_Suc tl_drop)
qed

lemma update_status_safe_exhausted:
  assumes "6 \<le> leading_failures (faults w)"
  shows "update_status_safe j s e w =
           (Inr (), w\<lparr>faults := drop 6 (faults w),
                       ticks := Suc (ticks w),
                       trace := trace w @ failed_rounds j s (1/4) 0 (map the (take 5 (faults w)))
                                @ [DbUpdate j s, AppWarning 6 j s (the (faults w ! 5))]\<rparr>)"
proof -
  let ?es = "map the (take 5 (faults w))"
  let ?w0 = "w\<lparr>ticks := Suc (ticks w)\<rparr>"
  have len: "length ?es = 5"
    using assms by (simp add: length_take_leading)
  have n5: "faults w ! 5 = Some (the (faults w ! 5))" "5 < length (faults w)"
    using nth_leading[of 5 "faults w"] assms by simp_all
  have f0: "faults ?w0 = map Some ?es @ drop 5 (faults w)"
    using leading_split[of 5 "faults w"] assms by simp
  let ?w1 = "?w0\<lparr>faults := drop 5 (faults w), trace := trace ?w0 @ failed_rounds j s (1/4) 0 ?es\<rparr>"
  have 1: "update_loop j s e 6 (1/4) (clock w (ticks w)) 0 ?w0 =
           update_loop j s e 6 (1/4) (clock w (ticks w)) (0 + length ?es) ?w1"
    by (intro update_loop_fail_prefix[OF f0]) (simp_all add: len)
  have d: "drop 5 (faults w) = Some (the (faults w ! 5)) # drop 6 (faults w)"
    using Cons_nth_drop_Suc[OF n5(2)] n5(1) by simp
  have f1: "faults ?w1 = Some (the (faults w ! 5)) # drop 6 (faults w)"
    using d by simp
  show ?thesis
    unfolding update_status_safe_def update_status_safe'_def read_clock_def prod.case 1 len
    by (subst update_loop_exhausted[OF f1]) simp_all
qed

lemma sleeps_append [simp]: "sleeps (xs @ ys) = sleeps xs @ sleeps ys"
  by (simp add: sleeps_def)

lemma attempts_append [simp]: "attempts (xs @ ys) = attempts xs + attempts ys"
  by (simp add: attempts_def)

lemma warnings_append [simp]: "warnings (xs @ ys) = warnings xs @ warnings ys"
  by (simp add: warnings_def)

lemma upt_shift: "[Suc a..<Suc (a + Suc n)] = Suc a # [Suc (Suc a)..<Suc (Suc a + n)]"
  by (simp add: upt_conv_Cons)

lemma sleeps_failed_rounds:
  "sleeps (failed_rounds j s b a es) = map (\<lambda>i. b * of_nat i) [Suc a..<Suc (a + length es)]"
proof (induction es arbitrary: a)
  case Nil
  then show ?case by (simp add: sleeps_def)
next
  case (Cons x xs)
  have "sleeps (failed_rounds j s b a (x # xs)) =
          (b * of_nat (Suc a)) # sleeps (failed_rounds j s b (Suc a) xs)"
    by (simp add: sleeps_def)
  then show ?case
    unfolding Cons.IH length_Cons upt_shift by simp
qed

lemma warnings_failed_rounds:
  "warnings (failed_rounds j s b a es) = [Suc a..<Suc (a + length es)]"
proof (induction es arbitrary: a)
  case Nil
  then show ?case by (simp add: warnings_def)
next
  case (Cons x xs)
  have "warnings (failed_rounds j s b a (x # xs)) = Suc a # warnings (failed_rounds j s b (Suc a) xs)"
    by (simp add: warnings_def)
  then show ?case
    unfolding Cons.IH length_Cons upt_shift by simp
qed

lemma attempts_failed_rounds:
  "attempts (failed_rounds j s b a es) = length es"
  by (induction es arbitrary: a) (simp_all add: attempts_def)

lemma new_effects_append [simp]: "trace w' = trace w @ es \<Longrightarrow> new_effects w w' = es"
  by (simp add: new_effects_def)

lemma effects_simps [simp]:
  "sleeps [] = []" "sleeps (Sleep d # es) = d # sleeps es"
  "sleeps (DbUpdate j s # es) = sleeps es" "sleeps (AppWarning n j s x # es) = sleeps es"
  "warnings [] = []" "warnings (Sleep d # es) = warnings es"
  "warnings (DbUpdate j s # es) = warnings es" "warnings (AppWarning n j s x # es) = n # warnings es"
  "attempts [] = 0" "attempts (Sleep d # es) = attempts es"
  "attempts (DbUpdate j s # es) = Suc (attempts es)" "attempts (AppWarning n j s x # es) = attempts es"
  by (simp_all add: sleeps_def warnings_def attempts_def)

lemma linear_delays_bounded:
  "n \<le> 5 \<Longrightarrow> d \<in> set (map (\<lambda>i. (1/4) * of_nat i) [1..<Suc n]) \<Longrightarrow> 0 < d \<and> d \<le> (5/4 :: rat)"
  by auto

text \<open>
  C2, amended: for every job, status and error argument and every sequence of store
  errors, \<^verbatim>\<open>update_status_safe\<close> (with its default \<^verbatim>\<open>retries=6, backoff=0.25\<close>) returns
  normally. With \<open>k\<close> the number of coming writes that fail before one goes through, it
  makes \<open>min (k + 1) 6\<close> attempts, logs a warning for each failed attempt (numbered from 1),
  and between two attempts sleeps \<open>0.25 * i\<close> seconds after the \<open>i\<close>-th failure: a linear
  backoff, positive and at most 1.25 seconds. When the first six attempts all fail it gives
  up after the sixth warning, returns normally and leaves the table as it was.
\<close>

theorem update_status_safe_swallows:
  "(let k = leading_failures (faults w);
        r = update_status_safe job_id st err w;
        new = new_effects w (snd r)
    in fst r = Inr ()
       \<and> attempts new = min (Suc k) 6
       \<and> warnings new = [1..<Suc (min k 6)]
       \<and> sleeps new = map (\<lambda>i. (1/4) * of_nat i) [1..<Suc (min k 5)]
       \<and> (\<forall>d \<in> set (sleeps new). 0 < d \<and> d \<le> 5/4)
       \<and> (6 \<le> k \<longrightarrow> rows (snd r) = rows w))"
proof -
  let ?k = "leading_failures (faults w)"
  let ?r = "update_status_safe job_id st err w"
  let ?new = "new_effects w (snd ?r)"
  have main: "fst ?r = Inr () \<and> attempts ?new = min (Suc ?k) 6
       \<and> warnings ?new = [1..<Suc (min ?k 6)]
       \<and> sleeps ?new = map (\<lambda>i. (1/4) * of_nat i) [1..<Suc (min ?k 5)]
       \<and> (6 \<le> ?k \<longrightarrow> rows (snd ?r) = rows w)"
  proof (cases "?k < 6")
    case True
    have m: "min (Suc ?k) 6 = Suc ?k" "min ?k 6 = ?k" "min ?k 5 = ?k"
      using True by simp_all
    let ?F = "failed_rounds job_id st (1/4) 0 (map the (take ?k (faults w)))"
    have n: "?new = ?F @ [DbUpdate job_id st]"
      unfolding update_status_safe_lands[OF True] by simp
    have l: "length (map the (take ?k (faults w))) = ?k"
      by (simp add: length_take_leading)
    show ?thesis
      unfolding n m
      using True
      by (simp add: update_status_safe_lands[OF True] sleeps_failed_rounds
          warnings_failed_rounds attempts_failed_rounds l del: length_map length_take)
  next
    case False
    then have k: "6 \<le> ?k" by simp
    have m: "min (Suc ?k) 6 = 6" "min ?k 6 = 6" "min ?k 5 = 5"
      using k by simp_all
    let ?F = "failed_rounds job_id st (1/4) 0 (map the (take 5 (faults w)))"
    have n: "?new = ?F @ [DbUpdate job_id st, AppWarning 6 job_id st (the (faults w ! 5))]"
      unfolding update_status_safe_exhausted[OF k] by simp
    have l: "length (map the (take 5 (faults w))) = 5"
      using k by (simp add: length_take_leading)
    have "[Suc 0..<Suc 6] = [Suc 0..<6] @ [6]"
      by (rule upt_Suc_append) simp
    then have u: "[Suc 0..<7] = [Suc 0..<6] @ [6]"
      by simp
    show ?thesis
      unfolding n m
      by (simp add: update_status_safe_exhausted[OF k] sleeps_failed_rounds
          warnings_failed_rounds attempts_failed_rounds l u del: length_map length_take upt_Suc)
  qed
  have b: "\<forall>d \<in> set (sleeps ?new). 0 < d \<and> d \<le> 5/4"
    using main linear_delays_bounded[of "min ?k 5"] by simp
  show ?thesis
    unfolding Let_def using main b by blast
qed


text \<open>
  C2, as stated, fails on the backoff: when the database stays locked, the delays between
  the six attempts are 0.25, 0.5, 0.75, 1.0 and 1.25 seconds, which grow by a constant
  difference and not by a constant factor.
\<close>

theorem backoff_not_exponential_counterexample:
  "sleeps (trace (snd (update_status_safe ''job-1'' ''failed'' (Some ''boom'') locked_world)))
     = [1/4, 1/2, 3/4, 1, 5/4]
   \<and> \<not> exponential_backoff [1/4, 1/2, 3/4, 1, 5/4]"
proof -
  have k: "6 \<le> leading_failures (faults locked_world)"
    by (simp add: locked_world_def leading_failures_def)
  show ?thesis
    unfolding update_status_safe_exhausted[OF k]
    by (simp add: locked_world_def submitted_world_def)
qed

text \<open>
  Instances: a database locked for two writes (three attempts, delays 0.25 and 0.5, the
  write lands) and one locked for six (six attempts, six warnings, table unchanged).
\<close>

theorem update_status_safe_swallows_witness:
  "fst (update_status_safe ''job-1'' ''failed'' (Some ''boom'') busy_world) = Inr ()
   \<and> attempts (new_effects busy_world
        (snd (update_status_safe ''job-1'' ''failed'' (Some ''boom'') busy_world))) = 3
   \<and> sleeps (new_effects busy_world
        (snd (update_status_safe ''job-1'' ''failed'' (Some ''boom'') busy_world))) = [1/4, 1/2]
   \<and> fst (update_status_safe ''job-1'' ''failed'' (Some ''boom'') locked_world) = Inr ()
   \<and> attempts (new_effects locked_world
        (snd (update_status_safe ''job-1'' ''failed'' (Some ''boom'') locked_world))) = 6
   \<and> warnings (new_effects locked_world
        (snd (update_status_safe ''job-1'' ''failed'' (Some ''boom'') locked_world))) = [1, 2, 3, 4, 5, 6]
   \<and> rows (snd (update_status_safe ''job-1'' ''failed'' (Some ''boom'') locked_world)) = rows locked_world"
proof -
  have k: "leading_failures (faults busy_world) = 2"
    by (simp add: busy_world_def leading_failures_def)
  have k': "leading_failures (faults locked_world) = 6"
    by (simp add: locked_world_def leading_failures_def)
  have u: "[Suc 0..<2] = [1]" "[Suc 0..<6] = [1, 2, 3, 4, 5]"
    by (simp_all add: upt_rec)
  show ?thesis
    using update_status_safe_swallows[of busy_world "''job-1''" "''failed''" "Some ''boom''"]
          update_status_safe_swallows[of locked_world "''job-1''" "''failed''" "Some ''boom''"]
    by (simp add: Let_def k k' u)
qed

text \<open>
  C10: a write of \<^verbatim>\<open>update_status_safe\<close> that lands (one of its six attempts goes through)
  on an existing job replaces exactly the columns status, updated\_at (the time read at
  the call) and error of that row, the error column by the value passed, whatever was
  stored before; created\_at, output\_dir and result\_zip\_path keep their values and
  no other row changes. Consequently a later write without an error argument (\<open>None\<close>),
  such as the one of status complete or of status processing, leaves the error column
  empty whatever an earlier write recorded.
\<close>

theorem update_sets_error_field:
  assumes "leading_failures (faults w) < 6" and "rows w job_id = Some r"
  shows "rows (snd (update_status_safe job_id st err w)) =
           (rows w)(job_id \<mapsto> r\<lparr>status := st, updated_at := clock w (ticks w), job_error := err\<rparr>)
       \<and> map_option job_error (rows (snd (update_status_safe job_id st err w)) job_id) = Some err
       \<and> map_option created_at (rows (snd (update_status_safe job_id st err w)) job_id)
           = Some (created_at r)
       \<and> map_option output_dir (rows (snd (update_status_safe job_id st err w)) job_id)
           = Some (output_dir r)
       \<and> map_option result_zip_path (rows (snd (update_status_safe job_id st err w)) job_id)
           = Some (result_zip_path r)
       \<and> (faults w = [] \<longrightarrow>
            map_option job_error
              (rows (snd (update_status_safe job_id st' None
                            (snd (update_status_safe job_id st err w)))) job_id) = Some None)"
proof -
  let ?w1 = "snd (update_status_safe job_id st err w)"
  have 1: "rows ?w1 = (rows w)(job_id \<mapsto> r\<lparr>status := st, updated_at := clock w (ticks w), job_error := err\<rparr>)"
    unfolding update_status_safe_lands[OF assms(1)]
    using assms(2) by (simp add: sql_update_status_def)
  have 2: "faults w = [] \<Longrightarrow>
            map_option job_error (rows (snd (update_status_safe job_id st' None ?w1)) job_id) = Some None"
  proof -
    assume e: "faults w = []"
    then have f1: "faults ?w1 = []"
      unfolding update_status_safe_lands[OF assms(1)] by simp
    then have l1: "leading_failures (faults ?w1) < 6"
      by (simp add: leading_failures_def)
    show ?thesis
      unfolding update_status_safe_lands[OF l1]
      by (simp add: 1 sql_update_status_def)
  qed
  show ?thesis
    using 1 2 by simp
qed

theorem update_sets_error_field_witness:
  "leading_failures (faults busy_world) < 6 \<and> rows busy_world ''job-1'' = Some queued_row
   \<and> rows (snd (update_status_safe ''job-1'' ''failed'' (Some ''boom'') busy_world)) ''job-1''
       = Some (queued_row\<lparr>status := ''failed'', updated_at := ''2025-01-01T00:00:01'',
                          job_error := Some ''boom''\<rparr>)
   \<and> faults submitted_world = []
   \<and> map_option job_error
        (rows (snd (update_status_safe ''job-1'' ''complete'' None
                      (snd (update_status_safe ''job-1'' ''processing'' (Some ''warning text'')
                              submitted_world)))) ''job-1'') = Some None"
proof -
  have k: "leading_failures (faults busy_world) < 6" "leading_failures (faults submitted_world) < 6"
    by (simp_all add: busy_world_def submitted_world_def leading_failures_def)
  have r: "rows busy_world ''job-1'' = Some queued_row" "rows submitted_world ''job-1'' = Some queued_row"
    by (simp_all add: busy_world_def submitted_world_def)
  show ?thesis
    using update_sets_error_field[OF k(1) r(1), of "''failed''" "Some ''boom''"]
          update_sets_error_field[OF k(2) r(2), of "''processing''" "Some ''warning text''" "''complete''"]
          k r
    by (simp add: busy_world_def submitted_world_def)
qed

text \<open>
  C6, as stated, fails when the database raises on the status query: the job has no
  token and its row is there, yet the handler raises. The query is not inside a
  \<^verbatim>\<open>try\<close>.
\<close>

theorem cancel_query_error_counterexample:
  "registry_get ''job-1'' finished_locked_world = None
   \<and> map_option status (rows finished_locked_world ''job-1'') = Some ''complete''
   \<and> fst (cancel_job ''job-1'' finished_locked_world) = Inl (Error ''database is locked'')"
  by (simp add: cancel_job_def registry_get_def db_transaction_def finished_locked_world_def
      finished_world_def submitted_world_def queued_row_def)

text \<open>
  C6, amended: a cancel request for a job that has no token in the registry. Looking the
  token up yields nothing and raises nothing. When the database answers the status
  query: if the job has no row, the handler raises the HTTP error 404
  \<^verbatim>\<open>Job not found\<close>; if it has a row, the handler returns that row's status with the
  message \<^verbatim>\<open>Job not running; no cancel needed\<close>. When the database raises on the status
  query, the handler raises that error. One of the two is the case. In every case the
  table and the registry are left as they were.
\<close>

theorem cancel_job_without_token:
  assumes "job_id \<notin> dom (RUNNING_JOBS w)"
  shows "registry_get job_id w = None
       \<and> (store_ready w \<and> rows w job_id = None \<longrightarrow>
            fst (cancel_job job_id w) = Inl (HTTPException 404 ''Job not found''))
       \<and> (\<forall>r. store_ready w \<and> rows w job_id = Some r \<longrightarrow>
            fst (cancel_job job_id w) = Inr (job_id, status r, ''Job not running; no cancel needed''))
       \<and> (\<forall>e fs. faults w = Some e # fs \<longrightarrow> fst (cancel_job job_id w) = Inl (Error e))
       \<and> (store_ready w \<or> (\<exists>e fs. faults w = Some e # fs))
       \<and> rows (snd (cancel_job job_id w)) = rows w
       \<and> RUNNING_JOBS (snd (cancel_job job_id w)) = RUNNING_JOBS w"
proof -
  have g: "registry_get job_id w = None"
    using assms by (auto simp: registry_get_def)
  show ?thesis
    using g
    by (auto simp: cancel_job_def db_transaction_def sql_select_status_def store_ready_def
        split: list.splits option.splits)
qed

text \<open>
  Instances: a finished job, a job that the table does not know, and the finished job
  while the database is locked.
\<close>

theorem cancel_job_without_token_witness:
  "''job-1'' \<notin> dom (RUNNING_JOBS finished_world) \<and> store_ready finished_world
   \<and> fst (cancel_job ''job-1'' finished_world)
       = Inr (''job-1'', ''complete'', ''Job not running; no cancel needed'')
   \<and> rows (snd (cancel_job ''job-1'' finished_world)) = rows finished_world
   \<and> ''job-2'' \<notin> dom (RUNNING_JOBS finished_world) \<and> rows finished_world ''job-2'' = None
   \<and> fst (cancel_job ''job-2'' finished_world) = Inl (HTTPException 404 ''Job not found'')
   \<and> ''job-1'' \<notin> dom (RUNNING_JOBS finished_locked_world)
   \<and> fst (cancel_job ''job-1'' finished_locked_world) = Inl (Error ''database is locked'')
   \<and> rows (snd (cancel_job ''job-1'' finished_locked_world)) = rows finished_locked_world"
proof -
  have 1: "''job-1'' \<notin> dom (RUNNING_JOBS finished_world)"
    "''job-2'' \<notin> dom (RUNNING_JOBS finished_world)"
    "''job-1'' \<notin> dom (RUNNING_JOBS finished_locked_world)"
    by (simp_all add: finished_locked_world_def finished_world_def submitted_world_def)
  have 2: "store_ready finished_world"
    by (simp add: finished_world_def submitted_world_def store_ready_def)
  have 3: "faults finished_locked_world = [Some ''database is locked'']"
    by (simp add: finished_locked_world_def)
  have 4: "rows finished_world ''job-1'' = Some (queued_row\<lparr>status := ''complete''\<rparr>)"
    "rows finished_world ''job-2'' = None"
    by (simp_all add: finished_world_def submitted_world_def)
  show ?thesis
    using cancel_job_without_token[OF 1(1)] cancel_job_without_token[OF 1(2)]
      cancel_job_without_token[OF 1(3)] 1 2 3 4
    by simp
qed

subsection \<open>Orchestrator: the order of the status writes of a run\<close>

lemma update_status_safe_returns: "fst (update_status_safe j st e w) = Inr ()"
proof (cases "leading_failures (faults w) < 6")
  case True
  then show ?thesis by (simp add: update_status_safe_lands)
next
  case False
  then have "6 \<le> leading_failures (faults w)" by simp
  then show ?thesis by (simp add: update_status_safe_exhausted)
qed

lemma orch_writes_append [simp]: "orch_writes j (xs @ ys) = orch_writes j xs @ orch_writes j ys"
  by (simp add: orch_writes_def)

lemma orch_writes_simps [simp]:
  "orch_writes j [] = []"
  "orch_writes j (DbUpdate j st # es) = st # orch_writes j es"
  "orch_writes j (AppWarning n a b c # es) = orch_writes j es"
  "orch_writes j (Sleep d # es) = orch_writes j es"
  "orch_writes j (JobLog l m # es) = orch_writes j es"
  "orch_writes j (DbFetch # es) = orch_writes j es"
  "orch_writes j (Step1 # es) = orch_writes j es"
  "orch_writes j (Step2 i # es) = orch_writes j es"
  "orch_writes j (ClearLocks # es) = orch_writes j es"
  "orch_writes j (ZipDirectory # es) = orch_writes j es"
  by (simp_all add: orch_writes_def)

lemma orch_writes_failed_rounds:
  "orch_writes j (failed_rounds j st b a xs) = replicate (length xs) st"
  by (induction xs arbitrary: a) simp_all

lemma update_status_safe_trace:
  "\<exists>n es. trace (snd (update_status_safe j st e w)) = trace w @ es
          \<and> orch_writes j es = replicate (Suc n) st"
proof (cases "leading_failures (faults w) < 6")
  case True
  show ?thesis
    unfolding update_status_safe_lands[OF True]
    by (rule exI[of _ "leading_failures (faults w)"])
       (simp add: orch_writes_failed_rounds length_take_leading replicate_append_same)
next
  case False
  then have k: "6 \<le> leading_failures (faults w)" by simp
  have l: "min (length (faults w)) 5 = 5"
    using k by (simp add: length_take_leading)
  have r: "st # replicate 5 st = replicate 6 st"
    by (simp add: eval_nat_numeral)
  show ?thesis
    unfolding update_status_safe_exhausted[OF k]
    by (rule exI[of _ 5]) (simp add: orch_writes_failed_rounds l replicate_append_same r)
qed

lemma update_status_safe_registry:
  "RUNNING_JOBS (snd (update_status_safe j st e w)) = RUNNING_JOBS w"
proof (cases "leading_failures (faults w) < 6")
  case True
  then show ?thesis by (simp add: update_status_safe_lands)
next
  case False
  then have "6 \<le> leading_failures (faults w)" by simp
  then show ?thesis by (simp add: update_status_safe_exhausted)
qed

lemma upd_eq: "upd j st e s = (Next, s\<lparr>wld := snd (update_status_safe j st e (wld s))\<rparr>)"
  using update_status_safe_returns[of j st e "wld s"]
  by (cases "update_status_safe j st e (wld s)") (simp add: upd_def)

lemma foldl_next_Junk [simp]: "foldl next_phase Junk ws = Junk"
  by (induction ws) simp_all

lemma phase_of_Nil [simp]: "phase_of [] = Proc"
  by (simp add: phase_of_def)

lemma phase_of_append: "phase_of ws = Proc \<Longrightarrow> phase_of (ws @ vs) = phase_of vs"
  by (simp add: phase_of_def)

lemma foldl_next_Term_same: "foldl next_phase (Term t) (replicate n t) = Term t"
  by (induction n) simp_all

lemma phase_of_replicate_processing [simp]: "phase_of (replicate n ''processing'') = Proc"
  by (induction n) (simp_all add: phase_of_def)

lemma phase_of_replicate_terminal:
  "terminal t \<Longrightarrow> phase_of (replicate (Suc n) t) = Term t"
  by (auto simp: phase_of_def terminal_def foldl_next_Term_same)


lemma stmt_specI:
  "(\<And>s. \<exists>es. trace (wld (snd (m s))) = trace (wld s) @ es
            \<and> ok (fst (m s)) (phase_of (orch_writes j es))) \<Longrightarrow> stmt_spec ok j m"
  for m :: stmt
  by (simp add: stmt_spec_def)

lemma stmt_specD:
  "stmt_spec ok j m \<Longrightarrow>
     \<exists>es. trace (wld (snd (m s))) = trace (wld s) @ es
         \<and> ok (fst (m s)) (phase_of (orch_writes j es))"
  by (simp add: stmt_spec_def)

lemma cont_imp_last: "flow_cont fl p \<Longrightarrow> flow_last fl p"
  by (cases fl) (simp_all add: flow_cont_def flow_last_def)

lemma spec_cont_imp_last: "stmt_spec flow_cont j m \<Longrightarrow> stmt_spec flow_last j m"
  unfolding stmt_spec_def using cont_imp_last by blast

lemma spec_block_Nil: "stmt_spec flow_cont j (block [])"
  by (rule stmt_specI) (simp add: flow_cont_def)

lemma spec_block_Cons:
  assumes m: "stmt_spec flow_cont j m"
    and ms: "stmt_spec ok j (block ms)"
    and weak: "\<And>fl p. flow_cont fl p \<Longrightarrow> ok fl p"
  shows "stmt_spec ok j (block (m # ms))"
proof (rule stmt_specI)
  fix s :: run_state
  obtain es1 where t1: "trace (wld (snd (m s))) = trace (wld s) @ es1"
    and c1: "flow_cont (fst (m s)) (phase_of (orch_writes j es1))"
    using stmt_specD[OF m, of s] by blast
  show "\<exists>es. trace (wld (snd (block (m # ms) s))) = trace (wld s) @ es
            \<and> ok (fst (block (m # ms) s)) (phase_of (orch_writes j es))"
  proof (cases "fst (m s) = Next")
    case True
    then have b: "block (m # ms) s = block ms (snd (m s))"
      by (cases "m s") simp
    have p1: "phase_of (orch_writes j es1) = Proc"
      using c1 True by (simp add: flow_cont_def)
    obtain es2 where t2: "trace (wld (snd (block ms (snd (m s))))) = trace (wld (snd (m s))) @ es2"
      and c2: "ok (fst (block ms (snd (m s)))) (phase_of (orch_writes j es2))"
      using stmt_specD[OF ms, of "snd (m s)"] by blast
    show ?thesis
      unfolding b
      by (rule exI[of _ "es1 @ es2"]) (simp add: t1 t2 c2 phase_of_append[OF p1])
  next
    case False
    then have b: "block (m # ms) s = m s"
      by (cases "m s"; cases "fst (m s)") auto
    show ?thesis
      unfolding b using t1 weak[OF c1] by blast
  qed
qed

lemma spec_block_cont:
  "stmt_spec flow_cont j m \<Longrightarrow> stmt_spec flow_cont j (block ms)
     \<Longrightarrow> stmt_spec flow_cont j (block (m # ms))"
  by (rule spec_block_Cons)

lemma spec_block_last:
  "stmt_spec flow_cont j m \<Longrightarrow> stmt_spec flow_last j (block ms)
     \<Longrightarrow> stmt_spec flow_last j (block (m # ms))"
  by (rule spec_block_Cons) (simp_all add: cont_imp_last)

lemma log_emit_trace:
  "\<exists>es. trace (wld (log_emit r s)) = trace (wld s) @ es \<and> orch_writes j es = []"
  for s :: run_state
  by (cases "logging_INFO \<le> levelno r") (simp_all add: log_emit_def emit_effect_def)

lemma spec_upd_processing: "stmt_spec flow_cont j (upd j ''processing'' e)"
proof (rule stmt_specI)
  fix s :: run_state
  obtain n es where "trace (snd (update_status_safe j ''processing'' e (wld s))) = trace (wld s) @ es"
    and "orch_writes j es = replicate (Suc n) ''processing''"
    using update_status_safe_trace by blast
  then show "\<exists>es. trace (wld (snd (upd j ''processing'' e s))) = trace (wld s) @ es
            \<and> flow_cont (fst (upd j ''processing'' e s)) (phase_of (orch_writes j es))"
    unfolding upd_eq
    using phase_of_replicate_processing[of "Suc n"]
    by (intro exI[of _ es]) (simp add: flow_cont_def del: replicate_Suc phase_of_replicate_processing)
qed

lemma spec_job_log: "stmt_spec flow_cont j (job_log l m)"
proof (rule stmt_specI)
  fix s :: run_state
  obtain es where "trace (wld (log_emit \<lparr>levelno = l, message = m\<rparr> s)) = trace (wld s) @ es"
    and "orch_writes j es = []"
    using log_emit_trace by blast
  then show "\<exists>es. trace (wld (snd (job_log l m s))) = trace (wld s) @ es
            \<and> flow_cont (fst (job_log l m s)) (phase_of (orch_writes j es))"
    by (intro exI[of _ es]) (simp add: job_log_def flow_cont_def)
qed

lemma spec_finish:
  assumes "terminal t"
  shows "stmt_spec flow_cont j (block [upd j t e, job_log l m, ret])"
proof (rule stmt_specI)
  fix s :: run_state
  let ?s1 = "s\<lparr>wld := snd (update_status_safe j t e (wld s))\<rparr>"
  obtain n es1 where t1: "trace (snd (update_status_safe j t e (wld s))) = trace (wld s) @ es1"
    and w1: "orch_writes j es1 = replicate (Suc n) t"
    using update_status_safe_trace[of j t e "wld s"] by auto
  obtain es2 where t2: "trace (wld (log_emit \<lparr>levelno = l, message = m\<rparr> ?s1))
                          = trace (snd (update_status_safe j t e (wld s))) @ es2"
    and w2: "orch_writes j es2 = []"
    using log_emit_trace[of "\<lparr>levelno = l, message = m\<rparr>" ?s1 j] by auto
  have r: "block [upd j t e, job_log l m, ret] s = (Return, log_emit \<lparr>levelno = l, message = m\<rparr> ?s1)"
    by (simp add: upd_eq job_log_def ret_def)
  show "\<exists>es. trace (wld (snd (block [upd j t e, job_log l m, ret] s))) = trace (wld s) @ es
            \<and> flow_cont (fst (block [upd j t e, job_log l m, ret] s)) (phase_of (orch_writes j es))"
    unfolding r
    using phase_of_replicate_terminal[OF assms, of n] assms
    by (intro exI[of _ "es1 @ es2"])
       (simp add: t1 t2 w1 w2 flow_cont_def del: replicate_Suc)
qed

lemma terminal_simps [simp]: "terminal ''failed''" "terminal ''canceled''" "terminal ''complete''"
  "\<not> terminal ''processing''"
  by (simp_all add: terminal_def)

lemma spec_skip: "stmt_spec flow_cont j (\<lambda>s. (Next, s))"
  by (rule stmt_specI) (simp add: flow_cont_def)

lemma spec_watcher_update:
  "stmt_spec ok j m \<Longrightarrow> stmt_spec ok j (\<lambda>s. m (s\<lparr>watcher := f s\<rparr>))"
  unfolding stmt_spec_def
proof
  fix s :: run_state
  assume a: "\<forall>s. \<exists>es. trace (wld (snd (m s))) = trace (wld s) @ es
              \<and> ok (fst (m s)) (phase_of (orch_writes j es))"
  show "\<exists>es. trace (wld (snd (m (s\<lparr>watcher := f s\<rparr>)))) = trace (wld s) @ es
            \<and> ok (fst (m (s\<lparr>watcher := f s\<rparr>))) (phase_of (orch_writes j es))"
    using a[rule_format, of "s\<lparr>watcher := f s\<rparr>"] by simp
qed

lemma spec_if:
  "stmt_spec ok j m \<Longrightarrow> stmt_spec ok j k \<Longrightarrow> stmt_spec ok j (\<lambda>s. if c s then m s else k s)"
  by (simp add: stmt_spec_def)

lemma spec_abort_if_error: "stmt_spec flow_cont j (abort_if_error ev j n pfx)"
proof (rule stmt_specI)
  fix s :: run_state
  let ?s1 = "s\<lparr>watcher := scan_file_once (watcher s) (file_reads ev n)\<rparr>"
  let ?m = "pfx @ ''Fail-fast due to error in logs: '' @ the (error_msg (watcher ?s1))"
  show "\<exists>es. trace (wld (snd (abort_if_error ev j n pfx s))) = trace (wld s) @ es
            \<and> flow_cont (fst (abort_if_error ev j n pfx s)) (phase_of (orch_writes j es))"
  proof (cases "truthy (error_msg (watcher ?s1))")
    case True
    then have e: "abort_if_error ev j n pfx s
                  = block [upd j ''failed'' (Some ?m), job_log logging_ERROR ?m, ret] ?s1"
      by (simp add: abort_if_error_def Let_def)
    show ?thesis
      unfolding e
      using stmt_specD[OF spec_finish[of "''failed''" j "Some ?m" logging_ERROR ?m], of ?s1]
      by simp
  next
    case False
    then have e: "abort_if_error ev j n pfx s = (Next, ?s1)"
      by (simp add: abort_if_error_def Let_def)
    show ?thesis
      unfolding e by (intro exI[of _ "[]"]) (simp add: flow_cont_def)
  qed
qed

lemma spec_cancel_check: "stmt_spec flow_cont j (cancel_check ev j n err m)"
proof (rule stmt_specI)
  fix s :: run_state
  show "\<exists>es. trace (wld (snd (cancel_check ev j n err m s))) = trace (wld s) @ es
            \<and> flow_cont (fst (cancel_check ev j n err m s)) (phase_of (orch_writes j es))"
  proof (cases "is_set ev n")
    case True
    then have e: "cancel_check ev j n err m s
                  = block [upd j ''canceled'' (Some err), job_log logging_WARNING m, ret] s"
      by (simp add: cancel_check_def)
    show ?thesis
      unfolding e
      using stmt_specD[OF spec_finish[of "''canceled''" j "Some err" logging_WARNING m], of s]
      by simp
  next
    case False
    then have e: "cancel_check ev j n err m s = (Next, s)"
      by (simp add: cancel_check_def)
    show ?thesis
      unfolding e by (intro exI[of _ "[]"]) (simp add: flow_cont_def)
  qed
qed

lemma spec_prepare: "stmt_spec flow_cont j (prepare ev)"
  by (rule stmt_specI) (simp add: prepare_def flow_cont_def split: option.splits)


lemma block_single [simp]: "block [m] = m"
proof
  fix s
  show "block [m] s = m s"
    by (cases "m s"; cases "fst (m s)") auto
qed

lemma spec_raise: "stmt_spec flow_cont j (\<lambda>s. (Raise exc, s))"
  by (rule stmt_specI) (simp add: flow_cont_def)

lemma spec_pre:
  fixes f :: "run_state \<Rightarrow> run_state" and m :: stmt
  assumes q: "\<And>s. \<exists>es. trace (wld (f s)) = trace (wld s) @ es \<and> orch_writes j es = []"
    and m: "stmt_spec ok j m"
  shows "stmt_spec ok j (\<lambda>s. m (f s))"
proof (rule stmt_specI)
  fix s :: run_state
  obtain es1 where t1: "trace (wld (f s)) = trace (wld s) @ es1" and w1: "orch_writes j es1 = []"
    using q by blast
  obtain es2 where t2: "trace (wld (snd (m (f s)))) = trace (wld (f s)) @ es2"
    and c2: "ok (fst (m (f s))) (phase_of (orch_writes j es2))"
    using stmt_specD[OF m, of "f s"] by blast
  show "\<exists>es. trace (wld (snd (m (f s)))) = trace (wld s) @ es
            \<and> ok (fst (m (f s))) (phase_of (orch_writes j es))"
    by (rule exI[of _ "es1 @ es2"]) (simp add: t1 t2 w1 c2)
qed

lemma foldl_log_emit_trace:
  fixes s :: run_state
  shows "\<exists>es. trace (wld (foldl (\<lambda>s r. log_emit r s) s rs)) = trace (wld s) @ es
              \<and> orch_writes j es = []"
proof (induction rs arbitrary: s)
  case Nil
  then show ?case by simp
next
  case (Cons r rs)
  obtain es1 where t1: "trace (wld (log_emit r s)) = trace (wld s) @ es1" and w1: "orch_writes j es1 = []"
    using log_emit_trace by blast
  obtain es2 where t2: "trace (wld (foldl (\<lambda>s r. log_emit r s) (log_emit r s) rs))
                          = trace (wld (log_emit r s)) @ es2"
    and w2: "orch_writes j es2 = []"
    using Cons.IH[of "log_emit r s"] by blast
  show ?case
    by (rule exI[of _ "es1 @ es2"]) (simp add: t1 t2 w1 w2)
qed

lemma call_step_trace:
  fixes s :: run_state
  assumes "orch_writes j [eff] = []"
  shows "\<exists>es. trace (wld (snd (call_step eff sr s))) = trace (wld s) @ es \<and> orch_writes j es = []"
proof -
  let ?s0 = "s\<lparr>wld := emit_effect eff (wld s)\<rparr>"
  obtain es where t: "trace (wld (foldl (\<lambda>s r. log_emit r s) ?s0 (logged sr))) = trace (wld ?s0) @ es"
    and w: "orch_writes j es = []"
    using foldl_log_emit_trace[of ?s0 "logged sr" j] by blast
  have x: "orch_writes j (eff # es) = []"
    using orch_writes_append[of j "[eff]" es] assms w by simp
  show ?thesis
    using t x by (intro exI[of _ "eff # es"]) (simp add: call_step_def emit_effect_def)
qed

lemma call_step_case:
  "(case call_step eff sr s of (Inl exc, s1) \<Rightarrow> A exc s1 | (Inr r, s1) \<Rightarrow> B r s1)
     = (case outcome sr of Inl exc \<Rightarrow> A exc | Inr r \<Rightarrow> B r) (snd (call_step eff sr s))"
  by (simp add: call_step_def split: sum.splits)

lemma spec_db_fetch: "stmt_spec flow_cont j (db_fetch ev j)"
proof (cases "use_database ev")
  case False
  then have "db_fetch ev j = (\<lambda>s. (Next, s))"
    by (simp add: db_fetch_def fun_eq_iff)
  then show ?thesis by (simp add: spec_skip)
next
  case True
  let ?f = "\<lambda>s :: run_state. (log_emit \<lparr>levelno = logging_INFO,
                 message = ''Attempting database fetch for LUTAssetTypes''\<rparr> s)
               \<lparr>wld := emit_effect DbFetch
                  (wld (log_emit \<lparr>levelno = logging_INFO,
                          message = ''Attempting database fetch for LUTAssetTypes''\<rparr> s))\<rparr>"
  let ?k = "case db_fetch_error ev of
              None \<Rightarrow> job_log logging_INFO ''Database fetch succeeded''
            | Some exc \<Rightarrow>
                block [upd j ''processing''
                         (Some (''Warning: could not load LUTAssetTypes from DB - '' @ str_exn ev exc)),
                       job_log logging_WARNING
                         (''Warning: could not load LUTAssetTypes from DB - '' @ str_exn ev exc)]"
  have e: "db_fetch ev j = (\<lambda>s. ?k (?f s))"
    using True by (simp add: db_fetch_def fun_eq_iff job_log_def Let_def split: option.splits)
  have q: "\<And>s. \<exists>es. trace (wld (?f s)) = trace (wld s) @ es \<and> orch_writes j es = []"
  proof -
    fix s :: run_state
    obtain es1 where "trace (wld (log_emit \<lparr>levelno = logging_INFO,
                 message = ''Attempting database fetch for LUTAssetTypes''\<rparr> s)) = trace (wld s) @ es1"
      and "orch_writes j es1 = []"
      using log_emit_trace by blast
    then show "\<exists>es. trace (wld (?f s)) = trace (wld s) @ es \<and> orch_writes j es = []"
      by (intro exI[of _ "es1 @ [DbFetch]"]) (simp add: emit_effect_def)
  qed
  have k: "stmt_spec flow_cont j ?k"
  proof (cases "db_fetch_error ev")
    case None
    then show ?thesis by (simp add: spec_job_log)
  next
    case (Some exc)
    have "stmt_spec flow_cont j
            (block [upd j ''processing''
                      (Some (''Warning: could not load LUTAssetTypes from DB - '' @ str_exn ev exc)),
                    job_log logging_WARNING
                      (''Warning: could not load LUTAssetTypes from DB - '' @ str_exn ev exc)])"
      by (rule spec_block_cont, rule spec_upd_processing) (simp add: spec_job_log)
    then show ?thesis using Some by simp
  qed
  show ?thesis
    unfolding e by (rule spec_pre[OF q k])
qed

lemma abort_if_error_writes:
  fixes s :: run_state
  shows "\<exists>es. trace (wld (snd (abort_if_error ev j n pfx s))) = trace (wld s) @ es
          \<and> ((fst (abort_if_error ev j n pfx s) = Next \<and> orch_writes j es = [])
             \<or> (fst (abort_if_error ev j n pfx s) = Return
                 \<and> (\<exists>k. orch_writes j es = replicate (Suc k) ''failed'')))"
proof -
  let ?s1 = "s\<lparr>watcher := scan_file_once (watcher s) (file_reads ev n)\<rparr>"
  let ?m = "pfx @ ''Fail-fast due to error in logs: '' @ the (error_msg (watcher ?s1))"
  show ?thesis
  proof (cases "truthy (error_msg (watcher ?s1))")
    case True
    let ?s2 = "?s1\<lparr>wld := snd (update_status_safe j ''failed'' (Some ?m) (wld s))\<rparr>"
    have e: "abort_if_error ev j n pfx s = (Return, log_emit \<lparr>levelno = logging_ERROR, message = ?m\<rparr> ?s2)"
      using True by (simp add: abort_if_error_def Let_def upd_eq job_log_def ret_def)
    obtain k es1 where t1: "trace (snd (update_status_safe j ''failed'' (Some ?m) (wld s))) = trace (wld s) @ es1"
      and w1: "orch_writes j es1 = replicate (Suc k) ''failed''"
      using update_status_safe_trace[of j "''failed''" "Some ?m" "wld s"] by auto
    obtain es2 where t2: "trace (wld (log_emit \<lparr>levelno = logging_ERROR, message = ?m\<rparr> ?s2))
                            = trace (snd (update_status_safe j ''failed'' (Some ?m) (wld s))) @ es2"
      and w2: "orch_writes j es2 = []"
      using log_emit_trace[of "\<lparr>levelno = logging_ERROR, message = ?m\<rparr>" ?s2 j] by auto
    show ?thesis
      unfolding e
      using t1 t2 w1 w2
      by (intro exI[of _ "es1 @ es2"]) (simp del: replicate_Suc)
  next
    case False
    then have e: "abort_if_error ev j n pfx s = (Next, ?s1)"
      by (simp add: abort_if_error_def Let_def)
    show ?thesis
      unfolding e by (intro exI[of _ "[]"]) simp
  qed
qed

lemma phase_of_failed_twice:
  "phase_of (replicate (Suc a) ''failed'' @ replicate b ''failed'') = Term ''failed''"
  using phase_of_replicate_terminal[of "''failed''" "a + b"]
  by (simp add: replicate_add[symmetric] del: replicate_Suc replicate_add)

lemma spec_step1_failed:
  "stmt_spec flow_cont j
     (block [upd j ''failed'' (Some ''Grid processing failed''),
             job_log logging_ERROR ''Step 1 failed'',
             abort_if_error ev j 1 ''after step1: '',
             ret])"
proof (rule stmt_specI)
  fix s :: run_state
  let ?s1 = "s\<lparr>wld := snd (update_status_safe j ''failed'' (Some ''Grid processing failed'') (wld s))\<rparr>"
  let ?s2 = "log_emit \<lparr>levelno = logging_ERROR, message = ''Step 1 failed''\<rparr> ?s1"
  let ?B = "block [upd j ''failed'' (Some ''Grid processing failed''),
             job_log logging_ERROR ''Step 1 failed'',
             abort_if_error ev j 1 ''after step1: '',
             ret]"
  obtain a es1 where t1: "trace (snd (update_status_safe j ''failed'' (Some ''Grid processing failed'') (wld s)))
                            = trace (wld s) @ es1"
    and w1: "orch_writes j es1 = replicate (Suc a) ''failed''"
    using update_status_safe_trace[of j "''failed''" "Some ''Grid processing failed''" "wld s"] by auto
  obtain es2 where t2: "trace (wld ?s2)
         = trace (snd (update_status_safe j ''failed'' (Some ''Grid processing failed'') (wld s))) @ es2"
    and w2: "orch_writes j es2 = []"
    using log_emit_trace[of "\<lparr>levelno = logging_ERROR, message = ''Step 1 failed''\<rparr>" ?s1 j] by auto
  obtain es3 where t3: "trace (wld (snd (abort_if_error ev j 1 ''after step1: '' ?s2))) = trace (wld ?s2) @ es3"
    and w3: "orch_writes j es3 = [] \<or> (\<exists>k. orch_writes j es3 = replicate (Suc k) ''failed'')"
    and f3: "fst (abort_if_error ev j 1 ''after step1: '' ?s2) = Next
             \<or> fst (abort_if_error ev j 1 ''after step1: '' ?s2) = Return"
    using abort_if_error_writes[of ev j 1 "''after step1: ''" ?s2] by blast
  have r: "?B s = (Return, snd (abort_if_error ev j 1 ''after step1: '' ?s2))"
    using f3
    by (cases "abort_if_error ev j 1 ''after step1: '' ?s2")
       (auto simp: upd_eq job_log_def ret_def)
  obtain b where w3': "orch_writes j es3 = replicate b ''failed''"
    using w3 by (metis replicate_0)
  show "\<exists>es. trace (wld (snd (?B s))) = trace (wld s) @ es
            \<and> flow_cont (fst (?B s)) (phase_of (orch_writes j es))"
    unfolding r
    using phase_of_failed_twice[of a b] t1 t2 t3 w1 w2 w3'
    by (intro exI[of _ "es1 @ es2 @ es3"])
       (simp add: flow_cont_def del: replicate_Suc)
qed

lemma save_final_zip_location_quiet:
  fixes s :: run_state
  shows "trace (wld (snd (save_final_zip_location ev j z s))) = trace (wld s)
       \<and> fst (save_final_zip_location ev j z s) \<noteq> Return"
  by (auto simp: save_final_zip_location_def db_transaction_def read_clock_def
           sql_select_row_def sql_update_zip_def
      split: list.splits option.splits sum.splits prod.splits if_splits)


lemma spec_complete_tail:
  "stmt_spec flow_last j
     (block [upd j ''complete'' None, save_final_zip_location ev j z, job_log l m])"
proof (rule stmt_specI)
  fix s :: run_state
  let ?B = "block [upd j ''complete'' None, save_final_zip_location ev j z, job_log l m]"
  let ?s1 = "s\<lparr>wld := snd (update_status_safe j ''complete'' None (wld s))\<rparr>"
  let ?r2 = "save_final_zip_location ev j z ?s1"
  obtain a es1 where t1: "trace (snd (update_status_safe j ''complete'' None (wld s))) = trace (wld s) @ es1"
    and w1: "orch_writes j es1 = replicate (Suc a) ''complete''"
    using update_status_safe_trace[of j "''complete''" None "wld s"] by auto
  have t2: "trace (wld (snd ?r2)) = trace (snd (update_status_safe j ''complete'' None (wld s)))"
    and f2: "fst ?r2 \<noteq> Return"
    using save_final_zip_location_quiet[of ev j z ?s1] by simp_all
  obtain es3 where t3: "trace (wld (log_emit \<lparr>levelno = l, message = m\<rparr> (snd ?r2)))
                          = trace (wld (snd ?r2)) @ es3"
    and w3: "orch_writes j es3 = []"
    using log_emit_trace by blast
  have p: "phase_of (replicate (Suc a) ''complete'') = Term ''complete''"
    by (rule phase_of_replicate_terminal) simp
  show "\<exists>es. trace (wld (snd (?B s))) = trace (wld s) @ es
            \<and> flow_last (fst (?B s)) (phase_of (orch_writes j es))"
  proof (cases "fst ?r2")
    case Next
    then have r: "?B s = (Next, log_emit \<lparr>levelno = l, message = m\<rparr> (snd ?r2))"
      by (cases ?r2) (simp add: upd_eq job_log_def)
    show ?thesis
      unfolding r using t1 t2 t3 w1 w3 p
      by (intro exI[of _ "es1 @ es3"]) (simp add: flow_last_def del: replicate_Suc)
  next
    case Return
    then show ?thesis using f2 by simp
  next
    case (Raise exc)
    then have r: "?B s = (Raise exc, snd ?r2)"
      by (cases ?r2) (simp add: upd_eq)
    show ?thesis
      unfolding r using t1 t2 w1 p
      by (intro exI[of _ es1]) (simp add: flow_last_def del: replicate_Suc)
  qed
qed

lemma spec_zip_stmt:
  "stmt_spec flow_cont j
     (\<lambda>s. let s1 = s\<lparr>wld := emit_effect ZipDirectory (emit_effect ClearLocks (wld s))\<rparr>
          in case zip_error ev of
               None \<Rightarrow> job_log logging_INFO m1 s1
             | Some xc \<Rightarrow>
                 (let m = ''Zipping failed: '' @ str_exn ev xc
                  in block [upd j ''failed'' (Some m), job_log logging_ERROR m, ret] s1))"
proof -
  let ?f = "\<lambda>s :: run_state. s\<lparr>wld := emit_effect ZipDirectory (emit_effect ClearLocks (wld s))\<rparr>"
  let ?k = "case zip_error ev of
               None \<Rightarrow> job_log logging_INFO m1
             | Some xc \<Rightarrow>
                 block [upd j ''failed'' (Some (''Zipping failed: '' @ str_exn ev xc)),
                        job_log logging_ERROR (''Zipping failed: '' @ str_exn ev xc), ret]"
  have q: "\<And>s. \<exists>es. trace (wld (?f s)) = trace (wld s) @ es \<and> orch_writes j es = []"
    by (intro exI[of _ "[ClearLocks, ZipDirectory]"]) (simp add: emit_effect_def)
  have k: "stmt_spec flow_cont j ?k"
    by (cases "zip_error ev") (simp_all add: spec_job_log spec_finish)
  have "stmt_spec flow_cont j (\<lambda>s. ?k (?f s))"
    by (rule spec_pre[OF q k])
  then show ?thesis
    by (simp add: Let_def option.case_distrib[of "\<lambda>g. g _"] cong: option.case_cong)
qed


lemma spec_zip_and_complete: "stmt_spec flow_last j (zip_and_complete ev j od)"
  unfolding zip_and_complete_def Let_def
  by (rule spec_block_last, rule spec_job_log,
      rule spec_block_last, rule spec_abort_if_error,
      rule spec_block_last, rule spec_job_log,
      rule spec_block_last, rule spec_zip_stmt[unfolded Let_def],
      rule spec_block_last, rule spec_job_log,
      rule spec_complete_tail)

lemma spec_step2_stmt:
  "stmt_spec flow_last j
     (\<lambda>s. case call_step (Step2 i) (step2 ev i) s of
             (Inl exc, s1) \<Rightarrow> (Raise exc, s1)
           | (Inr NotADict, s1) \<Rightarrow>
               block [upd j ''failed''
                        (Some ''Internal error - export_feature_collections did not return a dict''),
                      job_log logging_ERROR ''Step 2 failed: invalid return type'', ret] s1
           | (Inr (Dict d), s1) \<Rightarrow>
               if success d \<noteq> Some True then
                 (let m = step2_message d
                  in block [upd j ''failed'' (Some m),
                            job_log logging_ERROR (''Step 2 failed: '' @ m), ret] s1)
               else
                 block [job_log logging_INFO ''Step 2: completed successfully'',
                        cancel_check ev j 4 ''Canceled before zip'' ''Cancellation before zip'',
                        zip_and_complete ev j od] s1)"
proof -
  let ?k = "case outcome (step2 ev i) of
              Inl exc \<Rightarrow> (\<lambda>s1. (Raise exc, s1))
            | Inr NotADict \<Rightarrow>
               block [upd j ''failed''
                        (Some ''Internal error - export_feature_collections did not return a dict''),
                      job_log logging_ERROR ''Step 2 failed: invalid return type'', ret]
            | Inr (Dict d) \<Rightarrow>
               if success d \<noteq> Some True then
                  block [upd j ''failed'' (Some (step2_message d)),
                         job_log logging_ERROR (''Step 2 failed: '' @ step2_message d), ret]
               else
                 block [job_log logging_INFO ''Step 2: completed successfully'',
                        cancel_check ev j 4 ''Canceled before zip'' ''Cancellation before zip'',
                        zip_and_complete ev j od]"
  have z: "stmt_spec flow_last j
             (block [job_log logging_INFO ''Step 2: completed successfully'',
                     cancel_check ev j 4 ''Canceled before zip'' ''Cancellation before zip'',
                     zip_and_complete ev j od])"
    by (rule spec_block_last, rule spec_job_log, rule spec_block_last, rule spec_cancel_check)
       (simp add: spec_zip_and_complete)
  have k: "stmt_spec flow_last j ?k"
  proof (cases "outcome (step2 ev i)")
    case (Inl exc)
    then show ?thesis by (simp add: spec_cont_imp_last[OF spec_raise])
  next
    case (Inr r)
    show ?thesis
    proof (cases r)
      case NotADict
      then show ?thesis using Inr by (simp add: spec_cont_imp_last[OF spec_finish])
    next
      case (Dict d)
      then show ?thesis using Inr z by (simp add: spec_cont_imp_last[OF spec_finish])
    qed
  qed
  have q: "\<And>s. \<exists>es. trace (wld (snd (call_step (Step2 i) (step2 ev i) s))) = trace (wld s) @ es
                    \<and> orch_writes j es = []"
    by (rule call_step_trace) simp
  have "stmt_spec flow_last j (\<lambda>s. ?k (snd (call_step (Step2 i) (step2 ev i) s)))"
    by (rule spec_pre[OF q k])
  moreover have "(\<lambda>s. ?k (snd (call_step (Step2 i) (step2 ev i) s))) =
     (\<lambda>s. case call_step (Step2 i) (step2 ev i) s of
             (Inl exc, s1) \<Rightarrow> (Raise exc, s1)
           | (Inr NotADict, s1) \<Rightarrow>
               block [upd j ''failed''
                        (Some ''Internal error - export_feature_collections did not return a dict''),
                      job_log logging_ERROR ''Step 2 failed: invalid return type'', ret] s1
           | (Inr (Dict d), s1) \<Rightarrow>
               if success d \<noteq> Some True then
                 (let m = step2_message d
                  in block [upd j ''failed'' (Some m),
                            job_log logging_ERROR (''Step 2 failed: '' @ m), ret] s1)
               else
                 block [job_log logging_INFO ''Step 2: completed successfully'',
                        cancel_check ev j 4 ''Canceled before zip'' ''Cancellation before zip'',
                        zip_and_complete ev j od] s1)"
    by (rule ext) (simp add: call_step_def Let_def split: sum.splits returned.splits)
  ultimately show ?thesis by simp
qed

lemma spec_export_and_finish: "stmt_spec flow_last j (export_and_finish ev j od i)"
  unfolding export_and_finish_def
  by (rule spec_block_last, rule spec_cancel_check, rule spec_block_last, rule spec_job_log)
     (simp add: spec_step2_stmt)

lemma spec_step1_stmt:
  "stmt_spec flow_last j
     (\<lambda>s. case call_step Step1 (step1 ev) s of
             (Inl exc, s1) \<Rightarrow> (Raise exc, s1)
           | (Inr r, s1) \<Rightarrow>
               if \<not> succeeded r then
                 block [upd j ''failed'' (Some ''Grid processing failed''),
                        job_log logging_ERROR ''Step 1 failed'',
                        abort_if_error ev j 1 ''after step1: '',
                        ret] s1
               else
                 block [job_log logging_INFO ''Step 1: completed successfully'',
                        export_and_finish ev j od
                          (case r of Dict d \<Rightarrow> data d | NotADict \<Rightarrow> None)] s1)"
proof -
  let ?k = "case outcome (step1 ev) of
              Inl exc \<Rightarrow> (\<lambda>s1. (Raise exc, s1))
            | Inr r \<Rightarrow>
               if \<not> succeeded r then
                 block [upd j ''failed'' (Some ''Grid processing failed''),
                        job_log logging_ERROR ''Step 1 failed'',
                        abort_if_error ev j 1 ''after step1: '',
                        ret]
               else
                 block [job_log logging_INFO ''Step 1: completed successfully'',
                        export_and_finish ev j od
                          (case r of Dict d \<Rightarrow> data d | NotADict \<Rightarrow> None)]"
  have z: "\<And>i. stmt_spec flow_last j
             (block [job_log logging_INFO ''Step 1: completed successfully'',
                     export_and_finish ev j od i])"
    by (rule spec_block_last, rule spec_job_log) (simp add: spec_export_and_finish)
  have k: "stmt_spec flow_last j ?k"
  proof (cases "outcome (step1 ev)")
    case (Inl exc)
    then show ?thesis by (simp add: spec_cont_imp_last[OF spec_raise])
  next
    case (Inr r)
    then show ?thesis
      using z spec_cont_imp_last[OF spec_step1_failed[of j ev]] by simp
  qed
  have q: "\<And>s. \<exists>es. trace (wld (snd (call_step Step1 (step1 ev) s))) = trace (wld s) @ es
                    \<and> orch_writes j es = []"
    by (rule call_step_trace) simp
  have "stmt_spec flow_last j (\<lambda>s. ?k (snd (call_step Step1 (step1 ev) s)))"
    by (rule spec_pre[OF q k])
  moreover have "(\<lambda>s. ?k (snd (call_step Step1 (step1 ev) s))) =
     (\<lambda>s. case call_step Step1 (step1 ev) s of
             (Inl exc, s1) \<Rightarrow> (Raise exc, s1)
           | (Inr r, s1) \<Rightarrow>
               if \<not> succeeded r then
                 block [upd j ''failed'' (Some ''Grid processing failed''),
                        job_log logging_ERROR ''Step 1 failed'',
                        abort_if_error ev j 1 ''after step1: '',
                        ret] s1
               else
                 block [job_log logging_INFO ''Step 1: completed successfully'',
                        export_and_finish ev j od
                          (case r of Dict d \<Rightarrow> data d | NotADict \<Rightarrow> None)] s1)"
    by (rule ext) (simp add: call_step_def split: sum.splits)
  ultimately show ?thesis by simp
qed

lemma spec_grid_and_rest: "stmt_spec flow_last j (grid_and_rest ev j od)"
  unfolding grid_and_rest_def
  by (rule spec_block_last, rule spec_cancel_check, rule spec_block_last, rule spec_job_log)
     (simp add: spec_step1_stmt)

lemma spec_try_body: "stmt_spec flow_last j (try_body ev j od)"
  unfolding try_body_def
  by (rule spec_block_last, rule spec_upd_processing,
      rule spec_block_last, rule spec_job_log,
      rule spec_block_last, rule spec_abort_if_error,
      rule spec_block_last, rule spec_cancel_check,
      rule spec_block_last, rule spec_db_fetch,
      rule spec_block_last, rule spec_cancel_check,
      rule spec_block_last, rule spec_prepare)
     (simp add: spec_grid_and_rest)


lemma finally_clause_effect:
  fixes s :: run_state
  shows "\<exists>es. trace (wld (snd (finally_clause j s))) = trace (wld s) @ es
           \<and> orch_writes j es = []
           \<and> fst (finally_clause j s) = Next
           \<and> RUNNING_JOBS (wld (snd (finally_clause j s))) j = None"
proof -
  let ?s1 = "s\<lparr>wld := (wld s)\<lparr>RUNNING_JOBS := (RUNNING_JOBS (wld s))(j := None)\<rparr>\<rparr>"
  obtain es where t: "trace (wld (log_emit \<lparr>levelno = logging_INFO, message = ''Job finalizer finished''\<rparr> ?s1))
                        = trace (wld ?s1) @ es"
    and w: "orch_writes j es = []"
    using log_emit_trace by blast
  have r: "RUNNING_JOBS (wld (log_emit \<lparr>levelno = logging_INFO, message = ''Job finalizer finished''\<rparr> ?s1)) j = None"
    by (simp add: log_emit_def emit_effect_def)
  show ?thesis
    using t w r by (intro exI[of _ es]) (simp add: finally_clause_def job_log_def)
qed

lemma except_handler_effect:
  fixes s :: run_state
  shows "\<exists>n es. trace (wld (snd (except_handler ev j exc s))) = trace (wld s) @ es
           \<and> orch_writes j es = replicate (Suc n) ''failed''
           \<and> fst (except_handler ev j exc s) = Next"
proof -
  let ?s1 = "s\<lparr>wld := snd (update_status_safe j ''failed'' (Some (str_exn ev exc)) (wld s))\<rparr>"
  obtain n es1 where t1: "trace (snd (update_status_safe j ''failed'' (Some (str_exn ev exc)) (wld s)))
                            = trace (wld s) @ es1"
    and w1: "orch_writes j es1 = replicate (Suc n) ''failed''"
    using update_status_safe_trace[of j "''failed''" "Some (str_exn ev exc)" "wld s"] by auto
  obtain es2 where t2: "trace (wld (log_emit \<lparr>levelno = logging_ERROR, message = ''Unhandled error in job''\<rparr> ?s1))
                          = trace (snd (update_status_safe j ''failed'' (Some (str_exn ev exc)) (wld s))) @ es2"
    and w2: "orch_writes j es2 = []"
    using log_emit_trace[of "\<lparr>levelno = logging_ERROR, message = ''Unhandled error in job''\<rparr>" ?s1 j]
    by auto
  show ?thesis
    using t1 t2 w1 w2
    by (intro exI[of _ n] exI[of _ "es1 @ es2"])
       (simp add: except_handler_def upd_eq job_log_def del: replicate_Suc)
qed

lemma phase_of_snoc: "phase_of (ws @ vs) = foldl next_phase (phase_of ws) vs"
  by (simp add: phase_of_def)

lemma foldl_next_Slip_failed: "foldl next_phase Slip (replicate n ''failed'') = Slip"
  by (induction n) simp_all

lemma foldl_next_complete_failed:
  "foldl next_phase (Term ''complete'') (replicate (Suc n) ''failed'') = Slip"
  by (simp add: foldl_next_Slip_failed)

lemma foldl_next_Proc_failed:
  "foldl next_phase Proc (replicate (Suc n) ''failed'') = Term ''failed''"
  by (simp add: foldl_next_Term_same)

lemma try_except_finally_effect:
  fixes s :: run_state
  shows "\<exists>es. trace (wld (snd (try_except_finally ev j od s))) = trace (wld s) @ es
           \<and> (accepted (phase_of (orch_writes j es)) \<or> phase_of (orch_writes j es) = Slip)
           \<and> fst (try_except_finally ev j od s) = Next
           \<and> RUNNING_JOBS (wld (snd (try_except_finally ev j od s))) j = None"
proof -
  let ?r1 = "try_body ev j od s"
  obtain es1 where t1: "trace (wld (snd ?r1)) = trace (wld s) @ es1"
    and c1: "flow_last (fst ?r1) (phase_of (orch_writes j es1))"
    using stmt_specD[OF spec_try_body[of j ev od], of s] by blast
  show ?thesis
  proof (cases "fst ?r1")
    case (Raise exc)
    let ?r2 = "except_handler ev j exc (snd ?r1)"
    obtain n es2 where t2: "trace (wld (snd ?r2)) = trace (wld (snd ?r1)) @ es2"
      and w2: "orch_writes j es2 = replicate (Suc n) ''failed''"
      and f2: "fst ?r2 = Next"
      using except_handler_effect[of ev j exc "snd ?r1"] by blast
    obtain es3 where t3: "trace (wld (snd (finally_clause j (snd ?r2)))) = trace (wld (snd ?r2)) @ es3"
      and w3: "orch_writes j es3 = []"
      and f3: "fst (finally_clause j (snd ?r2)) = Next"
      and g3: "RUNNING_JOBS (wld (snd (finally_clause j (snd ?r2)))) j = None"
      using finally_clause_effect[of j "snd ?r2"] by blast
    have e: "try_except_finally ev j od s = finally_clause j (snd ?r2)"
      using Raise f2
      by (cases ?r1; cases ?r2) (simp add: try_except_finally_def)
    have p: "phase_of (orch_writes j es1) = Proc \<or> phase_of (orch_writes j es1) = Term ''complete''"
      using c1 Raise by (simp add: flow_last_def)
    have "phase_of (orch_writes j (es1 @ es2 @ es3)) = Term ''failed''
          \<or> phase_of (orch_writes j (es1 @ es2 @ es3)) = Slip"
      using p w2 w3 foldl_next_complete_failed[of n] foldl_next_Proc_failed[of n]
      by (auto simp: phase_of_snoc simp del: replicate_Suc)
    then show ?thesis
      unfolding e using t1 t2 t3 f3 g3
      by (intro exI[of _ "es1 @ es2 @ es3"]) (auto simp: accepted_def)
  next
    case Next
    obtain es3 where t3: "trace (wld (snd (finally_clause j (snd ?r1)))) = trace (wld (snd ?r1)) @ es3"
      and w3: "orch_writes j es3 = []"
      and f3: "fst (finally_clause j (snd ?r1)) = Next"
      and g3: "RUNNING_JOBS (wld (snd (finally_clause j (snd ?r1)))) j = None"
      using finally_clause_effect[of j "snd ?r1"] by blast
    have e: "try_except_finally ev j od s = finally_clause j (snd ?r1)"
      using Next by (cases ?r1) (simp add: try_except_finally_def)
    have "accepted (phase_of (orch_writes j es1))"
      using c1 Next by (auto simp: flow_last_def accepted_def)
    then show ?thesis
      unfolding e using t1 t3 w3 f3 g3
      by (intro exI[of _ "es1 @ es3"]) simp
  next
    case Return
    obtain es3 where t3: "trace (wld (snd (finally_clause j (snd ?r1)))) = trace (wld (snd ?r1)) @ es3"
      and w3: "orch_writes j es3 = []"
      and f3: "fst (finally_clause j (snd ?r1)) = Next"
      and g3: "RUNNING_JOBS (wld (snd (finally_clause j (snd ?r1)))) j = None"
      using finally_clause_effect[of j "snd ?r1"] by blast
    have e: "try_except_finally ev j od s = finally_clause j (snd ?r1)"
      using Return by (cases ?r1) (simp add: try_except_finally_def)
    have "accepted (phase_of (orch_writes j es1))"
      using c1 Return by (auto simp: flow_last_def accepted_def split: phase.splits)
    then show ?thesis
      unfolding e using t1 t3 w3 f3 g3
      by (intro exI[of _ "es1 @ es3"]) simp
  qed
qed

lemma run_after_setup:
  assumes "setup_error ev = None"
  shows "fst (run_survey_mapper ev j od w) = None
       \<and> RUNNING_JOBS (snd (run_survey_mapper ev j od w)) j = None"
proof -
  let ?s0 = "\<lparr>wld = w, watcher = new_watcher (latest_log ev) True\<rparr>"
  have "fst (try_except_finally ev j od ?s0) = Next"
    and "RUNNING_JOBS (wld (snd (try_except_finally ev j od ?s0))) j = None"
    using try_except_finally_effect[of ev j od ?s0] by blast+
  then show ?thesis
    using assms by (cases "try_except_finally ev j od ?s0") (simp add: run_survey_mapper_def)
qed

lemma run_writes:
  "\<exists>es. trace (snd (run_survey_mapper ev j od w)) = trace w @ es
       \<and> (accepted (phase_of (orch_writes j es)) \<or> phase_of (orch_writes j es) = Slip)"
proof (cases "setup_error ev")
  case (Some exc)
  then show ?thesis
    by (intro exI[of _ "[]"]) (simp add: run_survey_mapper_def accepted_def)
next
  case None
  let ?s0 = "\<lparr>wld = w, watcher = new_watcher (latest_log ev) True\<rparr>"
  obtain es where t: "trace (wld (snd (try_except_finally ev j od ?s0))) = trace (wld ?s0) @ es"
    and a: "accepted (phase_of (orch_writes j es)) \<or> phase_of (orch_writes j es) = Slip"
    and f: "fst (try_except_finally ev j od ?s0) = Next"
    using try_except_finally_effect[of ev j od ?s0] by blast
  have "snd (run_survey_mapper ev j od w) = wld (snd (try_except_finally ev j od ?s0))"
    using None f by (cases "try_except_finally ev j od ?s0") (simp add: run_survey_mapper_def)
  then show ?thesis
    using t a by (intro exI[of _ es]) simp
qed

subsection \<open>Status transitions under interleaving\<close>

lemma edge_terminal:
  "s \<in> set [''queued'', ''processing'', ''cancelling''] \<Longrightarrow> terminal t
     \<Longrightarrow> (s, t) \<in> set (spec_edges @ extra_edges)"
  by (auto simp: spec_edges_def extra_edges_def terminal_def)

lemma edge_processing:
  "s \<in> set [''queued'', ''processing'', ''cancelling'']
     \<Longrightarrow> s = ''processing'' \<or> (s, ''processing'') \<in> set (spec_edges @ extra_edges)"
  by (auto simp: spec_edges_def extra_edges_def)

lemma edge_cancel:
  "s = cancel_write s \<or> (s, cancel_write s) \<in> set (spec_edges @ extra_edges)"
  by (auto simp: spec_edges_def extra_edges_def cancel_write_def)

lemma consistent_cancel: "consistent p s \<Longrightarrow> consistent p (cancel_write s)"
  by (cases p) (auto simp: consistent_def cancel_write_def terminal_def)

lemma trajectory_head: "\<exists>rest. trajectory s ws acts = s # rest"
  by (induction s ws acts rule: trajectory.induct) auto

lemma moves_ok_Cons:
  "moves_ok g (a # trajectory s ws acts) = ((a = s \<or> (a, s) \<in> set g) \<and> moves_ok g (trajectory s ws acts))"
proof -
  obtain rest where "trajectory s ws acts = s # rest"
    using trajectory_head by blast
  then show ?thesis by simp
qed

lemma foldl_next_Slip: "\<not> accepted (foldl next_phase Slip ws)"
proof (induction ws)
  case Nil
  then show ?case by (simp add: accepted_def)
next
  case (Cons x xs)
  then show ?case by (cases "x = ''failed''") (simp_all add: accepted_def)
qed

lemma accepted_step:
  assumes "accepted (foldl next_phase (next_phase p st) ws)" and "consistent p s"
  shows "consistent (next_phase p st) s
       \<and> consistent (next_phase p st) st
       \<and> (s = st \<or> (s, st) \<in> set (spec_edges @ extra_edges))"
proof (cases p)
  case Proc
  then have s: "s \<in> set [''queued'', ''processing'', ''cancelling'']"
    using assms(2) by (simp add: consistent_def)
  show ?thesis
  proof (cases "st = ''processing''")
    case True
    then show ?thesis
      using Proc s edge_processing[OF s] by (auto simp: consistent_def)
  next
    case False
    then have t: "terminal st"
      using assms(1) Proc by (cases "terminal st") (simp_all add: accepted_def)
    then show ?thesis
      using Proc False s edge_terminal[OF s t] by (auto simp: consistent_def)
  qed
next
  case (Term t)
  then have tt: "terminal t" and s: "s \<in> set [''queued'', ''processing'', ''cancelling'', t]"
    using assms(2) by (simp_all add: consistent_def)
  have st: "st = t"
    using assms(1) Term foldl_next_Slip[of ws]
    by (cases "st = t"; cases "t = ''complete'' \<and> st = ''failed''") (simp_all add: accepted_def)
  have "s = t \<or> (s, t) \<in> set (spec_edges @ extra_edges)"
    using s edge_terminal[of s t, OF _ tt] by auto
  then show ?thesis
    using Term st tt s by (auto simp: consistent_def)
next
  case Slip
  then show ?thesis using assms(2) by (simp add: consistent_def)
next
  case Junk
  then show ?thesis using assms(2) by (simp add: consistent_def)
qed

lemma trajectory_moves_ok:
  "accepted (foldl next_phase p ws) \<Longrightarrow> consistent p s
     \<Longrightarrow> moves_ok (spec_edges @ extra_edges) (trajectory s ws acts)"
proof (induction s ws acts arbitrary: p rule: trajectory.induct)
  case (1 s ws)
  then show ?case by simp
next
  case (2 s ws acts)
  have "moves_ok (spec_edges @ extra_edges) (trajectory (cancel_write s) ws acts)"
    using "2.IH"[OF "2.prems"(1) consistent_cancel[OF "2.prems"(2)]] .
  then show ?case
    using edge_cancel[of s] by (simp add: moves_ok_Cons)
next
  case (3 s b acts)
  then show ?case by simp
next
  case (4 s st ws b acts)
  have a: "accepted (foldl next_phase (next_phase p st) ws)"
    using "4.prems"(1) by simp
  note k = accepted_step[OF a "4.prems"(2)]
  have c: "consistent (next_phase p st) (if b then st else s)"
    using k by simp
  have "moves_ok (spec_edges @ extra_edges) (trajectory (if b then st else s) ws acts)"
    using "4.IH"[OF a c] .
  then show ?case
    using k by (simp add: moves_ok_Cons)
qed

lemma foldl_next_Slip_cases:
  "foldl next_phase p ws = Slip \<Longrightarrow>
     p = Slip \<or> (p = Term ''complete'' \<and> ''failed'' \<in> set ws) \<or> (p = Proc \<and> failed_after_complete ws)"
proof (induction ws arbitrary: p)
  case Nil
  then show ?case by simp
next
  case (Cons x xs)
  note ih = Cons.IH[of "next_phase p x"]
  show ?case
  proof (cases p)
    case Proc
    then show ?thesis
      using Cons.prems ih
      by (cases "x = ''processing''"; cases "terminal x") auto
  next
    case (Term t)
    then show ?thesis
      using Cons.prems ih
      by (cases "x = t"; cases "t = ''complete'' \<and> x = ''failed''") auto
  next
    case Slip
    then show ?thesis by simp
  next
    case Junk
    then show ?thesis using Cons.prems by simp
  qed
qed

lemma phase_Slip_failed_after_complete: "phase_of ws = Slip \<Longrightarrow> failed_after_complete ws"
  using foldl_next_Slip_cases[of Proc ws] by (simp add: phase_of_def)

lemma no_edge_from_terminal:
  "(a, b) \<in> set (spec_edges @ extra_edges) \<Longrightarrow> \<not> terminal a"
  by (auto simp: spec_edges_def extra_edges_def terminal_def)

lemma cancel_job_status:
  assumes "RUNNING_JOBS w j = Some flag" and "store_ready w" and "rows w j = Some r"
  shows "map_option status (rows (snd (cancel_job j w)) j) = Some (cancel_write (status r))"
  using assms
  by (auto simp: cancel_job_def registry_get_def read_clock_def db_transaction_def
        sql_mark_cancelling_def store_ready_def cancel_write_def split: list.splits option.splits)

lemma update_status_safe_status:
  assumes "rows w j = Some r"
  shows "map_option status (rows (snd (update_status_safe j st e w)) j)
           = Some (if leading_failures (faults w) < 6 then st else status r)"
proof (cases "leading_failures (faults w) < 6")
  case True
  then show ?thesis
    using assms by (simp add: update_status_safe_lands sql_update_status_def)
next
  case False
  then have "6 \<le> leading_failures (faults w)" by simp
  then show ?thesis
    using assms False by (simp add: update_status_safe_exhausted)
qed

text \<open>
  C1, as stated, fails when a cancel request arrives before the orchestrator starts. The
  job is queued and has its token; the cancellation handler moves it to cancelling; the
  orchestrator then writes processing over cancelling, sees the flag and writes canceled.
  The moves from queued to cancelling and from cancelling to processing are not edges of
  the graph.
\<close>

theorem cancel_before_start_counterexample:
  "(let w1 = snd (cancel_job ''job-1'' submitted_world);
        ws = orch_writes ''job-1''
               (trace (snd (run_survey_mapper cancelled_env ''job-1'' ''output/job-1'' w1)))
    in map_option status (rows w1 ''job-1'') = Some ''cancelling''
       \<and> ws = [''processing'', ''canceled'']
       \<and> trajectory ''queued'' ws cancel_first
           = [''queued'', ''cancelling'', ''processing'', ''canceled'']
       \<and> \<not> moves_ok spec_edges (trajectory ''queued'' ws cancel_first)
       \<and> (''queued'', ''cancelling'') \<notin> set spec_edges
       \<and> (''cancelling'', ''processing'') \<notin> set spec_edges)"
  by code_simp

text \<open>
  C1, amended. Take any run of the orchestrator in which no write of failed comes after
  the write of complete (the write of failed that follows when recording the archive's
  location fails after the job was marked complete is left aside). Under every schedule
  in which the orchestrator's writes, each landing or lost, take turns with writes of the
  cancellation handler, the status of the job, from queued, changes only along the edges
  of the graph of the claim or along one of these: queued to cancelling, cancelling to
  processing, processing to canceled, cancelling to failed, cancelling to complete, and,
  when the write of processing was lost, queued to failed and queued to complete. No edge
  of this graph leaves canceled, failed or complete, and the cancellation handler leaves
  such a status as it is. The last two parts say what a write does to the stored status:
  the cancellation handler's write is \<open>cancel_write\<close>, and a write of the orchestrator
  sets the status it carries or, when it is lost, changes nothing.
\<close>

theorem status_moves_amended:
  assumes "\<not> failed_after_complete
             (orch_writes job_id (new_effects w (snd (run_survey_mapper ev job_id od w))))"
  shows "moves_ok (spec_edges @ extra_edges)
           (trajectory ''queued''
              (orch_writes job_id (new_effects w (snd (run_survey_mapper ev job_id od w)))) sched)
       \<and> (\<forall>e \<in> set (spec_edges @ extra_edges). \<not> terminal (fst e))
       \<and> (\<forall>s. terminal s \<longrightarrow> cancel_write s = s)
       \<and> (\<forall>flag r. RUNNING_JOBS w' job_id = Some flag \<and> store_ready w' \<and> rows w' job_id = Some r \<longrightarrow>
             map_option status (rows (snd (cancel_job job_id w')) job_id)
               = Some (cancel_write (status r)))
       \<and> (\<forall>r. rows w' job_id = Some r \<longrightarrow>
             map_option status (rows (snd (update_status_safe job_id st err w')) job_id)
               = Some (if leading_failures (faults w') < 6 then st else status r))"
proof -
  let ?ws = "orch_writes job_id (new_effects w (snd (run_survey_mapper ev job_id od w)))"
  obtain es where t: "trace (snd (run_survey_mapper ev job_id od w)) = trace w @ es"
    and a: "accepted (phase_of (orch_writes job_id es)) \<or> phase_of (orch_writes job_id es) = Slip"
    using run_writes by blast
  have n: "new_effects w (snd (run_survey_mapper ev job_id od w)) = es"
    using t by simp
  have "phase_of ?ws \<noteq> Slip"
    using assms phase_Slip_failed_after_complete by blast
  then have acc: "accepted (foldl next_phase Proc ?ws)"
    using a n by (simp add: phase_of_def)
  have c: "consistent Proc ''queued''"
    by (simp add: consistent_def)
  have 1: "moves_ok (spec_edges @ extra_edges) (trajectory ''queued'' ?ws sched)"
    by (rule trajectory_moves_ok[OF acc c])
  have 2: "\<forall>e \<in> set (spec_edges @ extra_edges). \<not> terminal (fst e)"
  proof
    fix e :: "string \<times> string"
    assume "e \<in> set (spec_edges @ extra_edges)"
    then have "(fst e, snd e) \<in> set (spec_edges @ extra_edges)" by simp
    then show "\<not> terminal (fst e)" by (rule no_edge_from_terminal)
  qed
  have 3: "\<forall>s. terminal s \<longrightarrow> cancel_write s = s"
    by (auto simp: terminal_def cancel_write_def)
  have 4: "\<forall>flag r. RUNNING_JOBS w' job_id = Some flag \<and> store_ready w' \<and> rows w' job_id = Some r \<longrightarrow>
             map_option status (rows (snd (cancel_job job_id w')) job_id)
               = Some (cancel_write (status r))"
    using cancel_job_status by blast
  have 5: "\<forall>r. rows w' job_id = Some r \<longrightarrow>
             map_option status (rows (snd (update_status_safe job_id st err w')) job_id)
               = Some (if leading_failures (faults w') < 6 then st else status r)"
    using update_status_safe_status by blast
  show ?thesis
    using 1 2 3 4 5 by blast
qed

text \<open>
  An instance: the run in which the first checkpoint fails writes processing, failed,
  failed; a cancel request after the first write moves the job to cancelling, the write
  of failed lands over it, and neither the second cancel request nor the lost third write
  changes the status again.
\<close>

theorem status_moves_amended_witness:
  "orch_writes ''job-1''
     (new_effects submitted_world
        (snd (run_survey_mapper grid_failed_env ''job-1'' ''output/job-1'' submitted_world)))
     = [''processing'', ''failed'', ''failed'']
   \<and> \<not> failed_after_complete [''processing'', ''failed'', ''failed'']
   \<and> trajectory ''queued'' [''processing'', ''failed'', ''failed''] cancel_midway
       = [''queued'', ''processing'', ''cancelling'', ''failed'', ''failed'', ''failed'']
   \<and> moves_ok (spec_edges @ extra_edges)
         (trajectory ''queued'' [''processing'', ''failed'', ''failed''] cancel_midway)"
proof -
  have w: "orch_writes ''job-1''
     (new_effects submitted_world
        (snd (run_survey_mapper grid_failed_env ''job-1'' ''output/job-1'' submitted_world)))
     = [''processing'', ''failed'', ''failed'']"
    by code_simp
  have h: "\<not> failed_after_complete
             (orch_writes ''job-1''
                (new_effects submitted_world
                   (snd (run_survey_mapper grid_failed_env ''job-1'' ''output/job-1'' submitted_world))))"
    unfolding w by simp
  have t: "trajectory ''queued'' [''processing'', ''failed'', ''failed''] cancel_midway
       = [''queued'', ''processing'', ''cancelling'', ''failed'', ''failed'', ''failed'']"
    by (simp add: cancel_midway_def cancel_write_def)
  show ?thesis
    using status_moves_amended[OF h, of cancel_midway] w t by simp
qed

subsection \<open>Orchestrator: failure of the first checkpoint and of the setup\<close>

text \<open>
  C3: the first checkpoint returns \<^verbatim>\<open>{"success": False, "data": None, "errors": ["grid failed"]}\<close>
  (and has logged \<^verbatim>\<open>grid failed\<close> as a warning). The run ends normally, the job is failed
  and the second checkpoint is not called, as the claim says. But the recorded error does
  not contain \<^verbatim>\<open>grid failed\<close>: the orchestrator never reads the error list of the first
  checkpoint. It writes the fixed text \<^verbatim>\<open>Grid processing failed\<close>, logs
  \<^verbatim>\<open>Step 1 failed\<close> as an error, which latches the watcher, and the check that follows
  overwrites the error with the watcher's message. (For the second checkpoint the
  orchestrator does join the error list into the recorded error.)
\<close>

theorem grid_failure_message_lost:
  "(let r = run_survey_mapper grid_failed_env ''job-1'' ''output/job-1'' submitted_world
    in fst r = None
       \<and> map_option status (rows (snd r) ''job-1'') = Some ''failed''
       \<and> map_option job_error (rows (snd r) ''job-1'')
           = Some (Some ''after step1: Fail-fast due to error in logs: Step 1 failed'')
       \<and> \<not> contains ''grid failed'' ''after step1: Fail-fast due to error in logs: Step 1 failed''
       \<and> step1_called (trace (snd r))
       \<and> \<not> step2_called (trace (snd r)))"
  by code_simp

text \<open>
  C5: the lines that build the job's logger and look up its log file come before the
  \<^verbatim>\<open>try\<close>. When they raise (here: the log directory cannot be created), the exception
  leaves the background run, the job stays queued with no error recorded, and its token
  stays in the registry. (An exception raised inside the \<^verbatim>\<open>try\<close> does not leave the
  run, and the token is removed: lemma \<open>run_after_setup\<close>.)
\<close>

theorem setup_failure_leaks_token:
  "(let r = run_survey_mapper setup_fails_env ''job-1'' ''output/job-1'' submitted_world
    in fst r = Some (Error ''[Errno 13] Permission denied: output/job-1/logs'')
       \<and> map_option status (rows (snd r) ''job-1'') = Some ''queued''
       \<and> map_option job_error (rows (snd r) ''job-1'') = Some None
       \<and> RUNNING_JOBS (snd r) ''job-1'' = Some False)"
  by code_simp

end
